theory Spec2Isabelle
  imports Complex_Main
begin

section \<open>The form filler of \<open>src/utilities/web/formFiller.ts\<close>\<close>

text \<open>
  The class \<open>FormFiller\<close> drives a browser page (Playwright) and a synthetic data library
  (Faker). Both are collaborators outside the repository, so they enter the model as a
  parameter, the \<open>world\<close>: what a selector matches, which browser calls are rejected,
  what the data library draws. The engine's own mutable state (the current Faker
  instance) is threaded explicitly, together with the log of browser calls made so far.

  JavaScript values are abstracted in the usual way: numbers that count or bound things
  are integers, strings are character lists (case mapping on the ASCII letters), and an
  object used as a dictionary is the association of its own string keys, in insertion
  order. The keyword table of the classifier is read with the members that every object
  inherits from \<open>Object.prototype\<close>; a write to the key \<open>__proto__\<close> of the result object
  of \<open>fillForm\<close> is not modelled.
\<close>

subsection \<open>Data model\<close>

datatype FieldType =
  TEXT | EMAIL | PASSWORD | PHONE | NUMBER | DATE | SELECT | CHECKBOX | RADIO | TEXTAREA
  | FILE | NAME | ADDRESS | CITY | STATE | ZIP | COUNTRY | COMPANY | URL | CUSTOM
  | OTHER string

text \<open>The last constructor stands for a run-time value that is no member of the enum:
  TypeScript does not keep such a value out, and \<open>generateValue\<close> has a \<open>default\<close>
  branch for it.\<close>

text \<open>The values a field can be filled with: \<open>string | boolean | number | Date\<close>. A date
  is kept as the text that \<open>String(date)\<close> prints.\<close>

datatype fillValue = VStr string | VBool bool | VNum int | VDate string

datatype fferror =
  UnsupportedLocale string
  | InteractionFailed
  | GeneratorFailed string
  | FakerRangeError

text \<open>A DOM element, as far as the engine looks at it: \<open>el.tagName\<close>, the attributes
  read by \<open>getAttribute\<close>, \<open>el.type\<close> (meaningful for an \<open>HTMLInputElement\<close>), the
  options of an \<open>HTMLSelectElement\<close> as pairs of value and \<open>disabled\<close>, and whether the
  element is visible.\<close>

record element =
  tagName :: string
  attributes :: "(string \<times> string) list"
  typeProp :: string
  selectOptions :: "(string \<times> bool) list"
  visible :: bool

text \<open>A Playwright locator: \<open>page.locator(css)\<close>, \<open>locator.nth(i)\<close>, or a locator object
  handed in by the caller.\<close>

datatype locator = Css string | Nth locator nat | Handle nat

datatype interaction =
  Locate string
  | Count locator
  | GetAttribute locator string
  | EvalTagName locator
  | EvalInputType locator
  | EvalOptions locator
  | EvalBlur locator
  | Fill locator string
  | SelectOption locator string
  | Check locator
  | Uncheck locator
  | SetInputFiles locator string
  | Click locator
  | Press locator string
  | IsVisible locator

datatype localeDefinition = En

record fakerInstance =
  instanceId :: nat
  localeDef :: localeDefinition

datatype synthKind =
  Words3 | Email | Password12 | PhoneNumber | RecentDate | Paragraphs2 | FullName
  | StreetAddress | CityName | StateName | ZipCode | CountryName | CompanyName | UrlText | Word

record world =
  query :: "string \<Rightarrow> element list"
  handles :: "nat \<Rightarrow> element list"
  rejects :: "interaction \<Rightarrow> bool"
  synth :: "fakerInstance \<Rightarrow> nat \<Rightarrow> synthKind \<Rightarrow> string"
  fakerDraw :: "fakerInstance \<Rightarrow> nat \<Rightarrow> nat"
  mathRandom :: "nat \<Rightarrow> nat"

record engine =
  faker :: fakerInstance
  created :: nat
  trace :: "interaction list"
  draws :: nat

type_synonym 'a eff = "engine \<Rightarrow> (fferror + 'a) \<times> engine"

definition ret :: "'a \<Rightarrow> 'a eff" where
  "ret x s = (Inr x, s)"

definition throw :: "fferror \<Rightarrow> 'a eff" where
  "throw e s = (Inl e, s)"

definition bnd :: "'a eff \<Rightarrow> ('a \<Rightarrow> 'b eff) \<Rightarrow> 'b eff" where
  "bnd m f s = (case m s of (Inl e, s') \<Rightarrow> (Inl e, s') | (Inr x, s') \<Rightarrow> f x s')"

subsection \<open>Strings\<close>

definition upperLetters :: string where
  "upperLetters = ''ABCDEFGHIJKLMNOPQRSTUVWXYZ''"

definition lowerLetters :: string where
  "lowerLetters = ''abcdefghijklmnopqrstuvwxyz''"

definition toLowerChar :: "char \<Rightarrow> char" where
  "toLowerChar c = (case map_of (zip upperLetters lowerLetters) c of Some d \<Rightarrow> d | None \<Rightarrow> c)"

definition toLowerCase :: "string \<Rightarrow> string" where
  "toLowerCase s = map toLowerChar s"

fun startsWith :: "string \<Rightarrow> string \<Rightarrow> bool" where
  "startsWith s [] = True"
| "startsWith [] (p # ps) = False"
| "startsWith (c # cs) (p # ps) = (c = p \<and> startsWith cs ps)"

text \<open>\<open>s.includes(p)\<close>: \<open>p\<close> occurs in \<open>s\<close> as a contiguous substring.\<close>

fun strIncludes :: "string \<Rightarrow> string \<Rightarrow> bool" where
  "strIncludes [] p = (p = [])"
| "strIncludes (c # cs) p = (startsWith (c # cs) p \<or> strIncludes cs p)"

definition digitChar :: "nat \<Rightarrow> char" where
  "digitChar d = ''0123456789'' ! d"

fun showNat :: "nat \<Rightarrow> string" where
  "showNat n = (if n < 10 then [digitChar n] else showNat (n div 10) @ [digitChar (n mod 10)])"

definition showInt :: "int \<Rightarrow> string" where
  "showInt i = (if i < 0 then CHR ''-'' # showNat (nat (- i)) else showNat (nat i))"

text \<open>JavaScript truthiness of an optional string: \<open>undefined\<close> and \<open>""\<close> are falsy.\<close>

definition truthy :: "string option \<Rightarrow> bool" where
  "truthy x = (case x of None \<Rightarrow> False | Some s \<Rightarrow> s \<noteq> [])"

subsection \<open>The browser layer\<close>

fun resolve :: "world \<Rightarrow> locator \<Rightarrow> element list" where
  "resolve w (Css sel) = query w sel"
| "resolve w (Handle h) = handles w h"
| "resolve w (Nth l i) = (let es = resolve w l in if i < length es then [es ! i] else [])"

definition logCall :: "interaction \<Rightarrow> engine \<Rightarrow> engine" where
  "logCall a s = s\<lparr>trace := trace s @ [a]\<rparr>"

text \<open>\<open>page.locator(sel)\<close> builds a locator; nothing can fail here.\<close>

definition pageLocator :: "string \<Rightarrow> locator eff" where
  "pageLocator sel s = (Inr (Css sel), logCall (Locate sel) s)"

text \<open>A call on a locator that acts on one element: the locator has to match exactly one
  element (none: the call times out, several: strict mode violation), and the browser
  can reject the call for reasons of its own.\<close>

definition onElement :: "world \<Rightarrow> locator \<Rightarrow> interaction \<Rightarrow> element eff" where
  "onElement w l a s =
     (case resolve w l of
        [e] \<Rightarrow> (if rejects w a then (Inl InteractionFailed, logCall a s) else (Inr e, logCall a s))
      | _ \<Rightarrow> (Inl InteractionFailed, logCall a s))"

definition act :: "world \<Rightarrow> locator \<Rightarrow> interaction \<Rightarrow> unit eff" where
  "act w l a = bnd (onElement w l a) (\<lambda>_. ret ())"

definition locatorCount :: "world \<Rightarrow> locator \<Rightarrow> nat eff" where
  "locatorCount w l s =
     (if rejects w (Count l) then (Inl InteractionFailed, logCall (Count l) s)
      else (Inr (length (resolve w l)), logCall (Count l) s))"

definition getAttribute :: "world \<Rightarrow> locator \<Rightarrow> string \<Rightarrow> string option eff" where
  "getAttribute w l a =
     bnd (onElement w l (GetAttribute l a)) (\<lambda>e. ret (map_of (attributes e) a))"

definition isVisible :: "world \<Rightarrow> locator \<Rightarrow> bool eff" where
  "isVisible w l s =
     (if rejects w (IsVisible l) then (Inl InteractionFailed, logCall (IsVisible l) s)
      else (case resolve w l of
              [] \<Rightarrow> (Inr False, logCall (IsVisible l) s)
            | [e] \<Rightarrow> (Inr (visible e), logCall (IsVisible l) s)
            | _ \<Rightarrow> (Inl InteractionFailed, logCall (IsVisible l) s)))"

definition getTagName :: "world \<Rightarrow> locator \<Rightarrow> string eff" where
  "getTagName w l = bnd (onElement w l (EvalTagName l)) (\<lambda>e. ret (toLowerCase (tagName e)))"

definition getInputType :: "world \<Rightarrow> locator \<Rightarrow> string option eff" where
  "getInputType w l =
     bnd (onElement w l (EvalInputType l))
       (\<lambda>e. ret (if toLowerCase (tagName e) = ''input'' then Some (toLowerCase (typeProp e))
                  else None))"

subsection \<open>Classifier\<close>

definition fieldTypeMappings :: "(string \<times> FieldType) list" where
  "fieldTypeMappings =
    [(''text'', TEXT), (''email'', EMAIL), (''password'', PASSWORD), (''number'', NUMBER),
     (''date'', DATE), (''checkbox'', CHECKBOX), (''radio'', RADIO), (''file'', FILE),
     (''url'', URL),
     (''name'', NAME), (''first'', NAME), (''firstname'', NAME), (''first-name'', NAME),
     (''first_name'', NAME), (''last'', NAME), (''lastname'', NAME), (''last-name'', NAME),
     (''last_name'', NAME), (''fullname'', NAME), (''full-name'', NAME), (''full_name'', NAME),
     (''e-mail'', EMAIL), (''mail'', EMAIL),
     (''pass'', PASSWORD),
     (''pwd'', PASSWORD),
     (''phone'', PHONE), (''telephone'', PHONE), (''tel'', PHONE), (''mobile'', PHONE),
     (''cell'', PHONE),
     (''address'', ADDRESS), (''street'', ADDRESS), (''street-address'', ADDRESS),
     (''street_address'', ADDRESS), (''addr'', ADDRESS), (''line1'', ADDRESS),
     (''address-line1'', ADDRESS), (''address_line1'', ADDRESS),
     (''city'', CITY), (''town'', CITY), (''locality'', CITY),
     (''state'', STATE), (''province'', STATE), (''region'', STATE), (''county'', STATE),
     (''zip'', ZIP), (''zipcode'', ZIP), (''zip-code'', ZIP), (''zip_code'', ZIP),
     (''postal'', ZIP), (''postalcode'', ZIP), (''postal-code'', ZIP), (''postal_code'', ZIP),
     (''country'', COUNTRY), (''nation'', COUNTRY),
     (''company'', COMPANY), (''organization'', COMPANY), (''organisation'', COMPANY),
     (''business'', COMPANY), (''firm'', COMPANY),
     (''website'', URL), (''web-site'', URL), (''web_site'', URL), (''homepage'', URL),
     (''home-page'', URL), (''home_page'', URL), (''web'', URL),
     (''comment'', TEXTAREA), (''message'', TEXTAREA), (''description'', TEXTAREA),
     (''memo'', TEXTAREA), (''notes'', TEXTAREA)]"

text \<open>The read \<open>FormFiller.fieldTypeMappings[key]\<close>. The table is a plain object, so a
  key that is not its own is looked up in \<open>Object.prototype\<close>, whose members (functions,
  and the prototype itself under \<open>__proto__\<close>) are all truthy.\<close>

definition objectPrototypeKeys :: "string list" where
  "objectPrototypeKeys =
     [''constructor'', ''__proto__'', ''hasOwnProperty'', ''isPrototypeOf'',
      ''propertyIsEnumerable'', ''toLocaleString'', ''toString'', ''valueOf'',
      ''__defineGetter__'', ''__defineSetter__'', ''__lookupGetter__'', ''__lookupSetter__'']"

definition mappingLookup :: "string \<Rightarrow> FieldType option" where
  "mappingLookup key =
     (case map_of fieldTypeMappings key of
        Some t \<Rightarrow> Some t
      | None \<Rightarrow> if key \<in> set objectPrototypeKeys then Some (OTHER key) else None)"

text \<open>The loop \<open>for (const [pattern, fieldType] of Object.entries(fieldTypeMappings))\<close>
  with its early \<open>return\<close>: the first entry whose pattern occurs in the lowered text.\<close>

fun scanMappings :: "string \<Rightarrow> (string \<times> FieldType) list \<Rightarrow> FieldType option" where
  "scanMappings lowered [] = None"
| "scanMappings lowered ((pattern, fieldType) # rest) =
     (if strIncludes lowered (toLowerCase pattern) then Some fieldType
      else scanMappings lowered rest)"

definition determineFieldType ::
  "world \<Rightarrow> locator \<Rightarrow> string \<Rightarrow> string \<Rightarrow> string \<Rightarrow> string \<Rightarrow> string \<Rightarrow> string
    \<Rightarrow> FieldType eff" where
  "determineFieldType w el inputType name ident placeholder ariaLabel label =
     bnd (getTagName w el) (\<lambda>tag.
       if tag = ''select'' then ret SELECT
       else if tag = ''textarea'' then ret TEXTAREA
       else if inputType \<noteq> [] \<and> mappingLookup (toLowerCase inputType) \<noteq> None
         then ret (the (mappingLookup (toLowerCase inputType)))
       else (case scanMappings (toLowerCase name) fieldTypeMappings of
               Some t \<Rightarrow> ret t
             | None \<Rightarrow>
           (case scanMappings (toLowerCase ident) fieldTypeMappings of
               Some t \<Rightarrow> ret t
             | None \<Rightarrow>
           (case scanMappings (toLowerCase placeholder) fieldTypeMappings of
               Some t \<Rightarrow> ret t
             | None \<Rightarrow>
           (case scanMappings (toLowerCase ariaLabel) fieldTypeMappings of
               Some t \<Rightarrow> ret t
             | None \<Rightarrow>
           (case scanMappings (toLowerCase label) fieldTypeMappings of
               Some t \<Rightarrow> ret t
             | None \<Rightarrow> ret TEXT))))))"

subsection \<open>Field configurations\<close>

datatype target = Sel string | Loc locator

text \<open>\<open>FieldConfig\<close>. A \<open>valueGenerator\<close> is a caller's function of no argument: it is
  kept as what calling it gives, a value or the exception it throws. The three flags
  are \<open>False\<close> when the property is absent.\<close>

record FieldConfig =
  selector :: target
  ftype :: FieldType
  valueGenerator :: "(fferror + fillValue) option"
  minOpt :: "rat option"
  maxOpt :: "rat option"
  options :: "string list option"
  clickAfterFill :: bool
  pressEnterAfterFill :: bool
  blurAfterFill :: bool
  filePath :: "string option"
  localeOpt :: "string option"

text \<open>\<open>Partial<Omit<FieldConfig, "selector">>\<close>: \<open>None\<close> is a property the override
  object does not have.\<close>

record FieldOverride =
  ovType :: "FieldType option"
  ovValueGenerator :: "(fferror + fillValue) option"
  ovMin :: "rat option"
  ovMax :: "rat option"
  ovOptions :: "string list option"
  ovClickAfterFill :: "bool option"
  ovPressEnterAfterFill :: "bool option"
  ovBlurAfterFill :: "bool option"
  ovFilePath :: "string option"
  ovLocale :: "string option"

record AutoFillOptions =
  formSelector :: "string option"
  excludeSelectors :: "string list option"
  customFields :: "(string \<times> FieldOverride) list"
  submitAfterFill :: "bool option"
  submitSelector :: "string option"
  autoLocale :: "string option"
  maxElements :: "int option"

subsection \<open>Locale handling\<close>

definition getLocaleDefinition :: "string \<Rightarrow> localeDefinition eff" where
  "getLocaleDefinition l = (if l = ''en'' then ret En else throw (UnsupportedLocale l))"

text \<open>\<open>this.faker = new Faker({ locale })\<close>: a fresh instance, told apart from every
  earlier one by its number.\<close>

definition installNewFaker :: "localeDefinition \<Rightarrow> unit eff" where
  "installNewFaker ld s =
     (Inr (), s\<lparr>faker := \<lparr>instanceId = created s, localeDef = ld\<rparr>, created := Suc (created s)\<rparr>)"

definition setFaker :: "fakerInstance \<Rightarrow> unit eff" where
  "setFaker f s = (Inr (), s\<lparr>faker := f\<rparr>)"

text \<open>The constructor: \<open>new FormFiller(page, locale)\<close>.\<close>

definition newFormFiller :: "string \<Rightarrow> fferror + engine" where
  "newFormFiller l =
     (if l = ''en''
      then Inr \<lparr>faker = \<lparr>instanceId = 0, localeDef = En\<rparr>, created = 1, trace = [], draws = 0\<rparr>
      else Inl (UnsupportedLocale l))"

subsection \<open>Value generator\<close>

definition synthText :: "world \<Rightarrow> synthKind \<Rightarrow> fillValue eff" where
  "synthText w k s = (Inr (VStr (synth w (faker s) (draws s) k)), s\<lparr>draws := Suc (draws s)\<rparr>)"

text \<open>Modelled from the spec: \<open>faker.number.int({ min, max })\<close> belongs to the data
  library, which is not under \<open>src/\<close>. The spec has it give a random integer of the
  closed interval from \<open>min\<close> to \<open>max\<close>; the bounds are JavaScript numbers, so the integers
  of the interval run from the ceiling of \<open>min\<close> to the floor of \<open>max\<close>, and where there is
  none the library raises. The integer is picked by a draw of the instance.\<close>

definition numberInt :: "nat \<Rightarrow> rat \<Rightarrow> rat \<Rightarrow> fferror + int" where
  "numberInt draw lo hi =
     (let effectiveMin = ceiling lo; effectiveMax = floor hi in
      if effectiveMin = effectiveMax then Inr effectiveMin
      else if effectiveMax < effectiveMin then Inl FakerRangeError
      else Inr (effectiveMin + int draw mod (effectiveMax - effectiveMin + 1)))"

definition fakerNumberInt :: "world \<Rightarrow> rat \<Rightarrow> rat \<Rightarrow> fillValue eff" where
  "fakerNumberInt w lo hi s =
     (case numberInt (fakerDraw w (faker s) (draws s)) lo hi of
        Inl e \<Rightarrow> (Inl e, s\<lparr>draws := Suc (draws s)\<rparr>)
      | Inr v \<Rightarrow> (Inr (VNum v), s\<lparr>draws := Suc (draws s)\<rparr>))"

text \<open>\<open>Math.random()\<close> is a multiple of \<open>2^-53\<close> below 1; the draw is kept as its
  numerator.\<close>

definition randomScale :: nat where
  "randomScale = 9007199254740992"

definition mathRandomDraw :: "world \<Rightarrow> nat eff" where
  "mathRandomDraw w s = (Inr (mathRandom w (draws s) mod randomScale), s\<lparr>draws := Suc (draws s)\<rparr>)"

text \<open>\<open>Math.floor(Math.random() * n)\<close>, with the product taken exactly: the rounding of
  the floating-point product, which can move a draw to the neighbouring index, is left
  out. The index stays below \<open>n\<close> either way.\<close>

definition randomIndex :: "world \<Rightarrow> nat \<Rightarrow> nat eff" where
  "randomIndex w n = bnd (mathRandomDraw w) (\<lambda>k. ret (k * n div randomScale))"

definition locatorOf :: "target \<Rightarrow> locator eff" where
  "locatorOf t = (case t of Sel sel \<Rightarrow> pageLocator sel | Loc l \<Rightarrow> ret l)"

definition liveOptions :: "element \<Rightarrow> string list" where
  "liveOptions e =
     (if toLowerCase (tagName e) = ''select''
      then map fst (filter (\<lambda>(v, disabled). v \<noteq> [] \<and> \<not> disabled) (selectOptions e))
      else [])"

definition getRandomSelectOption :: "world \<Rightarrow> target \<Rightarrow> string eff" where
  "getRandomSelectOption w t =
     bnd (locatorOf t) (\<lambda>l.
     bnd (onElement w l (EvalOptions l)) (\<lambda>e.
       let opts = liveOptions e in
       if length opts = 0 then ret []
       else bnd (randomIndex w (length opts)) (\<lambda>i. ret (opts ! i))))"

definition generateValue :: "world \<Rightarrow> FieldConfig \<Rightarrow> fillValue eff" where
  "generateValue w c =
     (case valueGenerator c of
        Some g \<Rightarrow> (case g of Inl e \<Rightarrow> throw e | Inr v \<Rightarrow> ret v)
      | None \<Rightarrow>
         (case ftype c of
            TEXT \<Rightarrow> synthText w Words3
          | EMAIL \<Rightarrow> synthText w Email
          | PASSWORD \<Rightarrow> synthText w Password12
          | PHONE \<Rightarrow> synthText w PhoneNumber
          | NUMBER \<Rightarrow>
              fakerNumberInt w (case minOpt c of None \<Rightarrow> 1 | Some m \<Rightarrow> m)
                               (case maxOpt c of None \<Rightarrow> 100 | Some m \<Rightarrow> m)
          | DATE \<Rightarrow> synthText w RecentDate
          | SELECT \<Rightarrow>
              (case options c of
                 None \<Rightarrow> bnd (getRandomSelectOption w (selector c)) (\<lambda>v. ret (VStr v))
               | Some os \<Rightarrow>
                   if length os > 0
                   then bnd (randomIndex w (length os)) (\<lambda>i. ret (VStr (os ! i)))
                   else bnd (getRandomSelectOption w (selector c)) (\<lambda>v. ret (VStr v)))
          | CHECKBOX \<Rightarrow> bnd (mathRandomDraw w) (\<lambda>k. ret (VBool (2 * k \<ge> randomScale)))
          | RADIO \<Rightarrow> bnd (mathRandomDraw w) (\<lambda>k. ret (VBool (2 * k \<ge> randomScale)))
          | TEXTAREA \<Rightarrow> synthText w Paragraphs2
          | NAME \<Rightarrow> synthText w FullName
          | ADDRESS \<Rightarrow> synthText w StreetAddress
          | CITY \<Rightarrow> synthText w CityName
          | STATE \<Rightarrow> synthText w StateName
          | ZIP \<Rightarrow> synthText w ZipCode
          | COUNTRY \<Rightarrow> synthText w CountryName
          | COMPANY \<Rightarrow> synthText w CompanyName
          | URL \<Rightarrow> synthText w UrlText
          | FILE \<Rightarrow> synthText w Word
          | CUSTOM \<Rightarrow> synthText w Word
          | OTHER _ \<Rightarrow> synthText w Word))"

subsection \<open>Filler\<close>

text \<open>\<open>String(value)\<close>. A number is an integer here and is printed with all its digits,
  as JavaScript does below \<open>1e21\<close>; from there on JavaScript prints an exponent.\<close>

definition stringOf :: "fillValue \<Rightarrow> string" where
  "stringOf v =
     (case v of VStr s \<Rightarrow> s | VBool b \<Rightarrow> (if b then ''true'' else ''false'')
      | VNum n \<Rightarrow> showInt n | VDate d \<Rightarrow> d)"

definition whenFlag :: "bool \<Rightarrow> unit eff \<Rightarrow> unit eff" where
  "whenFlag b m = (if b then m else ret ())"

definition applyValueToField :: "world \<Rightarrow> locator \<Rightarrow> FieldConfig \<Rightarrow> fillValue \<Rightarrow> unit eff" where
  "applyValueToField w l c v =
     bnd (getTagName w l) (\<lambda>tag.
     bnd (getInputType w l) (\<lambda>inputType.
     bnd (if tag = ''select''
          then (case v of VStr s \<Rightarrow> act w l (SelectOption l s) | _ \<Rightarrow> ret ())
          else if tag = ''input'' \<and> (inputType = Some ''checkbox'' \<or> inputType = Some ''radio'')
          then (case v of VBool b \<Rightarrow> (if b then act w l (Check l) else act w l (Uncheck l))
                | _ \<Rightarrow> ret ())
          else if tag = ''input'' \<and> inputType = Some ''file'' \<and> truthy (filePath c)
          then act w l (SetInputFiles l (the (filePath c)))
          else act w l (Fill l (stringOf v))) (\<lambda>_.
     bnd (whenFlag (clickAfterFill c) (act w l (Click l))) (\<lambda>_.
     bnd (whenFlag (pressEnterAfterFill c) (act w l (Press l ''Enter''))) (\<lambda>_.
     whenFlag (blurAfterFill c) (act w l (EvalBlur l)))))))"

definition fillField :: "world \<Rightarrow> FieldConfig \<Rightarrow> fillValue eff" where
  "fillField w c s0 =
     (let originalFaker = faker s0 in
      bnd (whenFlag (truthy (localeOpt c))
             (bnd (getLocaleDefinition (the (localeOpt c))) installNewFaker)) (\<lambda>_.
      bnd (locatorOf (selector c)) (\<lambda>l.
      bnd (generateValue w c) (\<lambda>v.
      bnd (applyValueToField w l c v) (\<lambda>_.
      bnd (whenFlag (truthy (localeOpt c)) (setFaker originalFaker)) (\<lambda>_.
      ret v))))) s0)"

text \<open>\<open>fieldValues[key] = value\<close> on an object: a key that is there keeps its place.\<close>

fun assign :: "string \<Rightarrow> 'v \<Rightarrow> (string \<times> 'v) list \<Rightarrow> (string \<times> 'v) list" where
  "assign k v [] = [(k, v)]"
| "assign k v ((k', v') # rest) = (if k' = k then (k, v) # rest else (k', v') # assign k v rest)"

definition selectorKey :: "FieldConfig \<Rightarrow> (string \<times> fillValue) list \<Rightarrow> string" where
  "selectorKey c fieldValues =
     (case selector c of Sel sel \<Rightarrow> sel | Loc _ \<Rightarrow> ''field-'' @ showNat (length fieldValues))"

fun fillFormLoop ::
  "world \<Rightarrow> FieldConfig list \<Rightarrow> (string \<times> fillValue) list \<Rightarrow> (string \<times> fillValue) list eff" where
  "fillFormLoop w [] fieldValues = ret fieldValues"
| "fillFormLoop w (c # cs) fieldValues =
     bnd (fillField w c) (\<lambda>v. fillFormLoop w cs (assign (selectorKey c fieldValues) v fieldValues))"

definition fillForm :: "world \<Rightarrow> FieldConfig list \<Rightarrow> (string \<times> fillValue) list eff" where
  "fillForm w fieldsConfig = fillFormLoop w fieldsConfig []"

subsection \<open>Scanner\<close>

text \<open>\<open>(await element.getAttribute(a)) || ""\<close>\<close>

definition orEmpty :: "string option \<Rightarrow> string" where
  "orEmpty x = (case x of None \<Rightarrow> [] | Some s \<Rightarrow> s)"

definition dq :: char where
  "dq = CHR 0x22"

definition inputSelector :: string where
  "inputSelector =
     ''input:not([type='' @ [dq] @ ''hidden'' @ [dq] @ '']):not([type='' @ [dq] @ ''submit'' @ [dq]
       @ '']):not([type='' @ [dq] @ ''button'' @ [dq] @ '']):not([type='' @ [dq] @ ''reset'' @ [dq]
       @ ''])''"

definition fieldSelectors :: "string list" where
  "fieldSelectors = [inputSelector, ''select'', ''textarea'']"

definition synthSelector :: "string \<Rightarrow> string \<Rightarrow> string \<Rightarrow> string \<Rightarrow> nat \<Rightarrow> string" where
  "synthSelector formSel elementSelector ident name i =
     (if ident \<noteq> [] then ''#'' @ ident
      else if name \<noteq> [] then elementSelector @ ''[name='' @ [dq] @ name @ [dq] @ '']''
      else formSel @ '' '' @ elementSelector @ '':nth-child('' @ showNat (i + 1) @ '')'')"

definition isExcluded :: "string list \<Rightarrow> string \<Rightarrow> bool" where
  "isExcluded excl sel = list_ex (\<lambda>excludeSelector. strIncludes sel excludeSelector) excl"

definition newFieldConfig :: "string \<Rightarrow> FieldType \<Rightarrow> FieldConfig" where
  "newFieldConfig sel t =
     \<lparr>selector = Sel sel, ftype = t, valueGenerator = None, minOpt = None, maxOpt = None,
      options = None, clickAfterFill = False, pressEnterAfterFill = False,
      blurAfterFill = False, filePath = None, localeOpt = None\<rparr>"

text \<open>The body of the loop over \<open>i\<close>: one element of the kind being scanned.\<close>

definition scanElement ::
  "world \<Rightarrow> string \<Rightarrow> string \<Rightarrow> string list \<Rightarrow> locator \<Rightarrow> nat \<Rightarrow> FieldConfig list
    \<Rightarrow> FieldConfig list eff" where
  "scanElement w formSel elementSelector excl elements i formFields =
     (let el = Nth elements i in
      bnd (getAttribute w el ''name'') (\<lambda>name.
      bnd (getAttribute w el ''id'') (\<lambda>ident.
      bnd (getAttribute w el ''type'') (\<lambda>type.
      bnd (getAttribute w el ''placeholder'') (\<lambda>placeholder.
      bnd (getAttribute w el ''aria-label'') (\<lambda>ariaLabel.
      bnd (getAttribute w el ''label'') (\<lambda>label.
        let sel = synthSelector formSel elementSelector (orEmpty ident) (orEmpty name) i in
        if isExcluded excl sel then ret formFields
        else bnd (determineFieldType w el (orEmpty type) (orEmpty name) (orEmpty ident)
                    (orEmpty placeholder) (orEmpty ariaLabel) (orEmpty label))
               (\<lambda>fieldType. ret (formFields @ [newFieldConfig sel fieldType])))))))))"

text \<open>\<open>for (let i = 0; i < count; i++)\<close>\<close>

function scanLoop ::
  "world \<Rightarrow> string \<Rightarrow> string \<Rightarrow> string list \<Rightarrow> locator \<Rightarrow> int \<Rightarrow> nat \<Rightarrow> FieldConfig list
    \<Rightarrow> FieldConfig list eff" where
  "scanLoop w formSel elementSelector excl elements count i formFields =
     (if int i < count
      then bnd (scanElement w formSel elementSelector excl elements i formFields)
             (\<lambda>formFields'. scanLoop w formSel elementSelector excl elements count (Suc i) formFields')
      else ret formFields)"
  by pat_completeness auto
termination
  by (relation "measure (\<lambda>(w, formSel, elementSelector, excl, elements, count, i, formFields).
        nat (count - int i))") auto

text \<open>\<open>for (const elementSelector of fieldSelectors)\<close>, left by \<open>break\<close> once
  \<open>formFields.length >= maxElements\<close>.\<close>

fun detectLoop ::
  "world \<Rightarrow> string \<Rightarrow> string list \<Rightarrow> int \<Rightarrow> string list \<Rightarrow> FieldConfig list
    \<Rightarrow> FieldConfig list eff" where
  "detectLoop w formSel excl maxEl [] formFields = ret formFields"
| "detectLoop w formSel excl maxEl (elementSelector # rest) formFields =
     bnd (pageLocator (formSel @ '' '' @ elementSelector)) (\<lambda>elements.
     bnd (locatorCount w elements) (\<lambda>n.
     bnd (scanLoop w formSel elementSelector excl elements (min (int n) maxEl) 0 formFields)
       (\<lambda>formFields'.
          if int (length formFields') \<ge> maxEl then ret formFields'
          else detectLoop w formSel excl maxEl rest formFields')))"

definition detectFormFields :: "world \<Rightarrow> string \<Rightarrow> string list \<Rightarrow> int \<Rightarrow> FieldConfig list eff" where
  "detectFormFields w formSel excl maxEl = detectLoop w formSel excl maxEl fieldSelectors []"

subsection \<open>Orchestrator\<close>

fun findIndex :: "('a \<Rightarrow> bool) \<Rightarrow> 'a list \<Rightarrow> nat option" where
  "findIndex P [] = None"
| "findIndex P (x # xs) =
     (if P x then Some 0 else (case findIndex P xs of None \<Rightarrow> None | Some i \<Rightarrow> Some (Suc i)))"

definition pick :: "'a option \<Rightarrow> 'a \<Rightarrow> 'a" where
  "pick ov dflt = (case ov of None \<Rightarrow> dflt | Some v \<Rightarrow> v)"

definition keep :: "'a option \<Rightarrow> 'a option \<Rightarrow> 'a option" where
  "keep ov old = (case ov of None \<Rightarrow> old | Some v \<Rightarrow> Some v)"

text \<open>\<open>{ ...formFields[fieldIndex], ...customFields[selector] }\<close>\<close>

definition mergeConfig :: "FieldConfig \<Rightarrow> FieldOverride \<Rightarrow> FieldConfig" where
  "mergeConfig c ov =
     \<lparr>selector = selector c,
      ftype = pick (ovType ov) (ftype c),
      valueGenerator = keep (ovValueGenerator ov) (valueGenerator c),
      minOpt = keep (ovMin ov) (minOpt c),
      maxOpt = keep (ovMax ov) (maxOpt c),
      options = keep (ovOptions ov) (options c),
      clickAfterFill = pick (ovClickAfterFill ov) (clickAfterFill c),
      pressEnterAfterFill = pick (ovPressEnterAfterFill ov) (pressEnterAfterFill c),
      blurAfterFill = pick (ovBlurAfterFill ov) (blurAfterFill c),
      filePath = keep (ovFilePath ov) (filePath c),
      localeOpt = keep (ovLocale ov) (localeOpt c)\<rparr>"

fun applyCustomFields :: "(string \<times> FieldOverride) list \<Rightarrow> FieldConfig list \<Rightarrow> FieldConfig list" where
  "applyCustomFields [] formFields = formFields"
| "applyCustomFields ((sel, ov) # rest) formFields =
     applyCustomFields rest
       (case findIndex (\<lambda>field. selector field = Sel sel) formFields of
          None \<Rightarrow> formFields
        | Some fieldIndex \<Rightarrow> formFields[fieldIndex := mergeConfig (formFields ! fieldIndex) ov])"

text \<open>The \<open>if (submitAfterFill)\<close> block.\<close>

definition submitForm :: "world \<Rightarrow> string \<Rightarrow> FieldConfig list \<Rightarrow> unit eff" where
  "submitForm w submitSel formFields =
     bnd (pageLocator submitSel) (\<lambda>submitButton.
     bnd (isVisible w submitButton) (\<lambda>isVis.
       if isVis then act w submitButton (Click submitButton)
       else (case formFields of
               [] \<Rightarrow> ret ()
             | _ # _ \<Rightarrow>
                 bnd (locatorOf (selector (last formFields))) (\<lambda>lastLocator.
                 act w lastLocator (Press lastLocator ''Enter'')))))"

definition defaultSubmitSelector :: string where
  "defaultSubmitSelector = ''button[type='' @ [CHR 0x27] @ ''submit'' @ [CHR 0x27] @ '']''"

definition autoFillForm :: "world \<Rightarrow> AutoFillOptions \<Rightarrow> (string \<times> fillValue) list eff" where
  "autoFillForm w opts s0 =
     (let formSel = pick (formSelector opts) ''form'';
          excl = pick (excludeSelectors opts) [];
          submit = pick (submitAfterFill opts) False;
          submitSel = pick (submitSelector opts) defaultSubmitSelector;
          maxEl = pick (maxElements opts) 50;
          originalFaker = faker s0 in
      bnd (whenFlag (truthy (autoLocale opts))
             (bnd (getLocaleDefinition (the (autoLocale opts))) installNewFaker)) (\<lambda>_.
      bnd (detectFormFields w formSel excl maxEl) (\<lambda>detected.
        let formFields = applyCustomFields (customFields opts) detected in
      bnd (fillForm w formFields) (\<lambda>fieldValues.
      bnd (whenFlag submit (submitForm w submitSel formFields)) (\<lambda>_.
      bnd (whenFlag (truthy (autoLocale opts)) (setFaker originalFaker)) (\<lambda>_.
      ret fieldValues))))) s0)"

subsection \<open>Notions used to state the properties\<close>

text \<open>The locator a target stands for, without the call that builds it.\<close>

definition plainLocator :: "target \<Rightarrow> locator" where
  "plainLocator t = (case t of Sel sel \<Rightarrow> Css sel | Loc l \<Rightarrow> l)"

text \<open>An attribute as the scanner reads it: \<open>(await element.getAttribute(a)) || ""\<close>.\<close>

definition attrOf :: "element \<Rightarrow> string \<Rightarrow> string" where
  "attrOf e a = orEmpty (map_of (attributes e) a)"

text \<open>The category the classifier's priority order gives to a tag, a declared type and the
  free-text signals in the order they are consulted.\<close>

definition priorityClass :: "string \<Rightarrow> string \<Rightarrow> string list \<Rightarrow> FieldType" where
  "priorityClass tag inputType signals =
     (if tag = ''select'' then SELECT
      else if tag = ''textarea'' then TEXTAREA
      else (case mappingLookup (toLowerCase inputType) of
              Some t \<Rightarrow> t
            | None \<Rightarrow>
               (case List.map_filter
                       (\<lambda>signal. scanMappings (toLowerCase signal) fieldTypeMappings) signals of
                  t # _ \<Rightarrow> t
                | [] \<Rightarrow> TEXT)))"

text \<open>The selector and the descriptor the scanner builds for the element found at
  position \<open>i\<close> of its kind.\<close>

definition selectorAt :: "string \<Rightarrow> string \<Rightarrow> nat \<Rightarrow> element \<Rightarrow> string" where
  "selectorAt formSel elementSelector i e =
     synthSelector formSel elementSelector (attrOf e ''id'') (attrOf e ''name'') i"

definition descriptorAt :: "string \<Rightarrow> string \<Rightarrow> nat \<Rightarrow> element \<Rightarrow> FieldConfig" where
  "descriptorAt formSel elementSelector i e =
     newFieldConfig (selectorAt formSel elementSelector i e)
       (priorityClass (toLowerCase (tagName e)) (attrOf e ''type'')
          [attrOf e ''name'', attrOf e ''id'', attrOf e ''placeholder'', attrOf e ''aria-label'',
           attrOf e ''label''])"

text \<open>The descriptors of the elements of a list, found from position \<open>i\<close> on, whose
  selector no exclude substring occurs in.\<close>

definition kept :: "string \<Rightarrow> string \<Rightarrow> string list \<Rightarrow> nat \<Rightarrow> element list \<Rightarrow> FieldConfig list" where
  "kept formSel elementSelector excl i els =
     map (\<lambda>(j, e). descriptorAt formSel elementSelector j e)
       (filter (\<lambda>(j, e). \<not> isExcluded excl (selectorAt formSel elementSelector j e))
          (enumerate i els))"

text \<open>What the scan returns on a page whose browser rejects no call: the loop over the
  kinds, without the calls.\<close>

fun detectPure ::
  "world \<Rightarrow> string \<Rightarrow> string list \<Rightarrow> int \<Rightarrow> string list \<Rightarrow> FieldConfig list \<Rightarrow> FieldConfig list" where
  "detectPure w formSel excl maxEl [] formFields = formFields"
| "detectPure w formSel excl maxEl (k # rest) formFields =
     (let els = query w (formSel @ '' '' @ k);
          formFields' = formFields @ kept formSel k excl 0 (take (nat (min (int (length els)) maxEl)) els)
      in if int (length formFields') \<ge> maxEl then formFields'
         else detectPure w formSel excl maxEl rest formFields')"

text \<open>\<open>autoFillForm\<close> up to the \<open>if (submitAfterFill)\<close> block: the locale override,
  the scan, the merge of \<open>customFields\<close>, and the fill. It gives the merged descriptors
  and the map of filled values.\<close>

definition scanAndFill ::
  "world \<Rightarrow> AutoFillOptions \<Rightarrow> (FieldConfig list \<times> (string \<times> fillValue) list) eff" where
  "scanAndFill w opts =
     bnd (whenFlag (truthy (autoLocale opts))
            (bnd (getLocaleDefinition (the (autoLocale opts))) installNewFaker)) (\<lambda>_.
     bnd (detectFormFields w (pick (formSelector opts) ''form'') (pick (excludeSelectors opts) [])
            (pick (maxElements opts) 50)) (\<lambda>detected.
     bnd (fillForm w (applyCustomFields (customFields opts) detected)) (\<lambda>fieldValues.
     ret (applyCustomFields (customFields opts) detected, fieldValues))))"

text \<open>The calls that press Enter on the last descriptor's element, none when there is
  no descriptor.\<close>

definition pressCalls :: "FieldConfig list \<Rightarrow> interaction list" where
  "pressCalls formFields =
     (case formFields of
        [] \<Rightarrow> []
      | _ # _ \<Rightarrow> (case selector (last formFields) of
                    Sel sel \<Rightarrow> [Locate sel, Press (Css sel) ''Enter'']
                  | Loc l \<Rightarrow> [Press l ''Enter'']))"

text \<open>The browser calls the scanner makes.\<close>

definition isScanCall :: "interaction \<Rightarrow> bool" where
  "isScanCall a =
     (case a of Locate _ \<Rightarrow> True | Count _ \<Rightarrow> True | GetAttribute _ _ \<Rightarrow> True
      | EvalTagName _ \<Rightarrow> True | _ \<Rightarrow> False)"

text \<open>A computation only adds calls that satisfy \<open>P\<close> to the log.\<close>

definition emits :: "(interaction \<Rightarrow> bool) \<Rightarrow> 'a eff \<Rightarrow> bool" where
  "emits P m = (\<forall>s. \<exists>t. trace (snd (m s)) = trace s @ t \<and> list_all P t)"

text \<open>A computation leaves the engine's generator as it found it, however it ends.\<close>

definition keepsFaker :: "'a eff \<Rightarrow> bool" where
  "keepsFaker m = (\<forall>s. faker (snd (m s)) = faker s)"

text \<open>A descriptor addressed by a selector in which no exclude substring occurs.\<close>

definition notExcluded :: "string list \<Rightarrow> FieldConfig \<Rightarrow> bool" where
  "notExcluded excl c = (case selector c of Sel sel \<Rightarrow> \<not> isExcluded excl sel | Loc _ \<Rightarrow> False)"

subsection \<open>An example page\<close>

text \<open>The engine right after \<open>new FormFiller(page)\<close>.\<close>

definition engine0 :: engine where
  "engine0 = \<lparr>faker = \<lparr>instanceId = 0, localeDef = En\<rparr>, created = 1, trace = [], draws = 0\<rparr>"

definition textInput :: element where
  "textInput = \<lparr>tagName = ''INPUT'', attributes = [(''id'', ''a''), (''type'', ''text'')],
     typeProp = ''text'', selectOptions = [], visible = True\<rparr>"

definition emailInput :: element where
  "emailInput = \<lparr>tagName = ''INPUT'',
     attributes = [(''id'', ''email''), (''type'', ''email''), (''name'', ''phone'')],
     typeProp = ''email'', selectOptions = [], visible = True\<rparr>"

definition fileInput :: element where
  "fileInput = \<lparr>tagName = ''INPUT'', attributes = [(''id'', ''file''), (''type'', ''file'')],
     typeProp = ''file'', selectOptions = [], visible = True\<rparr>"

text \<open>A dropdown whose options are an empty placeholder and a disabled entry.\<close>

definition emptySelect :: element where
  "emptySelect = \<lparr>tagName = ''SELECT'', attributes = [(''id'', ''sel'')],
     typeProp = [], selectOptions = [([], False), (''gone'', True)], visible = True\<rparr>"

text \<open>A page with these four elements. The browser rejects no call.\<close>

definition demoWorld :: world where
  "demoWorld = \<lparr>query = (\<lambda>sel.
        if sel = ''#a'' then [textInput]
        else if sel = ''#email'' then [emailInput]
        else if sel = ''#file'' then [fileInput]
        else if sel = ''#sel'' then [emptySelect]
        else []),
      handles = (\<lambda>h. if h = 0 then [textInput] else []),
      rejects = (\<lambda>_. False),
      synth = (\<lambda>_ _ _. ''lorem''),
      fakerDraw = (\<lambda>_ d. d),
      mathRandom = (\<lambda>_. 0)\<rparr>"

text \<open>A second page, for the scanner. The form \<open>form\<close> holds one input and two dropdowns;
  \<open>#formA\<close> holds the inputs \<open>skip\<close>, \<open>a\<close> and \<open>b\<close>; \<open>#formB\<close> holds \<open>a\<close> and \<open>b\<close> only. No
  element matches the default submit selector.\<close>

definition idInput :: "string \<Rightarrow> element" where
  "idInput ident = \<lparr>tagName = ''INPUT'', attributes = [(''id'', ident), (''type'', ''text'')],
     typeProp = ''text'', selectOptions = [], visible = True\<rparr>"

definition idSelect :: "string \<Rightarrow> element" where
  "idSelect ident = \<lparr>tagName = ''SELECT'', attributes = [(''id'', ident)],
     typeProp = [], selectOptions = [(''one'', False)], visible = True\<rparr>"

definition scanWorld :: world where
  "scanWorld = \<lparr>query = (\<lambda>sel.
        if sel = ''form '' @ inputSelector then [idInput ''i1'']
        else if sel = ''form select'' then [idSelect ''s1'', idSelect ''s2'']
        else if sel = ''#formA '' @ inputSelector then [idInput ''skip'', idInput ''a'', idInput ''b'']
        else if sel = ''#formB '' @ inputSelector then [idInput ''a'', idInput ''b'']
        else if sel = ''#a'' then [idInput ''a'']
        else if sel = ''#b'' then [idInput ''b'']
        else []),
      handles = (\<lambda>_. []),
      rejects = (\<lambda>_. False),
      synth = (\<lambda>_ _ _. ''lorem''),
      fakerDraw = (\<lambda>_ d. d),
      mathRandom = (\<lambda>_. 0)\<rparr>"

text \<open>An override that sets the locale of a field and nothing else, and a call that
  carries it for the field \<open>#a\<close> of the form \<open>#formB\<close>.\<close>

definition localeOverride :: "string \<Rightarrow> FieldOverride" where
  "localeOverride l =
     \<lparr>ovType = None, ovValueGenerator = None, ovMin = None, ovMax = None, ovOptions = None,
      ovClickAfterFill = None, ovPressEnterAfterFill = None, ovBlurAfterFill = None,
      ovFilePath = None, ovLocale = Some l\<rparr>"

definition customLocaleOptions :: AutoFillOptions where
  "customLocaleOptions = \<lparr>formSelector = Some ''#formB'', excludeSelectors = None,
     customFields = [(''#a'', localeOverride ''fr'')], submitAfterFill = None,
     submitSelector = None, autoLocale = None, maxElements = None\<rparr>"

text \<open>Filling the form \<open>#formB\<close> and submitting it.\<close>

definition submitOptions :: AutoFillOptions where
  "submitOptions = \<lparr>formSelector = Some ''#formB'', excludeSelectors = None, customFields = [],
     submitAfterFill = Some True, submitSelector = None, autoLocale = None,
     maxElements = None\<rparr>"

section \<open>Properties\<close>

subsection \<open>Auxiliary facts\<close>

lemmas lower_defs = toLowerCase_def toLowerChar_def upperLetters_def lowerLetters_def

lemma bnd_Inr: "m s = (Inr x, s') \<Longrightarrow> bnd m f s = f x s'"
  by (simp add: bnd_def)

lemma bnd_Inl: "m s = (Inl e, s') \<Longrightarrow> bnd m f s = (Inl e, s')"
  by (simp add: bnd_def)

lemma bnd_ret: "bnd (ret x) f = f x"
  by (rule ext) (simp add: bnd_def ret_def)

lemma locatorOf_plain: "\<exists>s'. locatorOf t s = (Inr (plainLocator t), s')"
  by (cases t) (simp_all add: locatorOf_def plainLocator_def pageLocator_def ret_def)

lemma onElement_ok:
  "resolve w l = [e] \<Longrightarrow> \<not> rejects w a \<Longrightarrow> onElement w l a s = (Inr e, logCall a s)"
  by (simp add: onElement_def)

lemma map_of_mappings_empty: "mappingLookup [] = None"
  by (simp add: mappingLookup_def fieldTypeMappings_def objectPrototypeKeys_def)

lemma postActions_trace:
  "\<exists>rest. trace (snd (bnd (whenFlag a (act w l (Click l)))
             (\<lambda>_. bnd (whenFlag b (act w l (Press l ''Enter'')))
             (\<lambda>_. whenFlag d (act w l (EvalBlur l)))) s)) = trace s @ rest
     \<and> set rest \<subseteq> {Click l, Press l ''Enter'', EvalBlur l}"
  by (auto simp add: whenFlag_def act_def onElement_def bnd_def ret_def logCall_def
      split: list.splits)

declare scanLoop.simps [simp del]

lemma bnd_assoc: "bnd (bnd m f) g = bnd m (\<lambda>x. bnd (f x) g)"
  by (rule ext) (simp add: bnd_def split: prod.splits sum.splits)

lemma bnd_success:
  "bnd m f s = (Inr y, s') \<Longrightarrow> \<exists>x s1. m s = (Inr x, s1) \<and> f x s1 = (Inr y, s')"
  by (auto simp add: bnd_def split: prod.splits sum.splits)






lemma getTagName_ok:
  "resolve w l = [e] \<Longrightarrow> \<not> rejects w (EvalTagName l)
    \<Longrightarrow> getTagName w l s = (Inr (toLowerCase (tagName e)), logCall (EvalTagName l) s)"
  by (simp add: getTagName_def onElement_ok bnd_def ret_def)

lemma getAttribute_ok:
  "resolve w l = [e] \<Longrightarrow> \<not> rejects w (GetAttribute l a)
    \<Longrightarrow> getAttribute w l a s = (Inr (map_of (attributes e) a), logCall (GetAttribute l a) s)"
  by (simp add: getAttribute_def onElement_ok bnd_def ret_def)

lemma determineFieldType_run:
  assumes "getTagName w el s = (Inr tag, s')"
  shows "determineFieldType w el inputType name ident placeholder ariaLabel label s =
     (Inr (priorityClass tag inputType [name, ident, placeholder, ariaLabel, label]), s')"
proof (cases "inputType = []")
  case True
  then show ?thesis using assms
    by (simp add: determineFieldType_def priorityClass_def bnd_def ret_def toLowerCase_def
        map_of_mappings_empty List.map_filter_simps split: option.splits)
next
  case False
  then show ?thesis using assms
    by (auto simp add: determineFieldType_def priorityClass_def bnd_def ret_def
        List.map_filter_simps split: option.splits)
qed

lemma determineFieldType_ok:
  "resolve w l = [e] \<Longrightarrow> \<not> rejects w (EvalTagName l)
    \<Longrightarrow> determineFieldType w l ty n i p a lb s
        = (Inr (priorityClass (toLowerCase (tagName e)) ty [n, i, p, a, lb]),
           logCall (EvalTagName l) s)"
  by (rule determineFieldType_run) (rule getTagName_ok)

lemma scanElement_quiet:
  assumes "\<forall>a. \<not> rejects w a" and "i < length (resolve w elements)"
  shows "\<exists>s'. scanElement w fs es ex elements i ff s
           = (Inr (ff @ kept fs es ex i [resolve w elements ! i]), s')"
proof -
  have r: "resolve w (Nth elements i) = [resolve w elements ! i]"
    using assms(2) by (simp add: Let_def)
  show ?thesis
    using assms(1)
    by (simp add: scanElement_def Let_def getAttribute_ok [OF r] determineFieldType_ok [OF r]
        bnd_def ret_def kept_def descriptorAt_def selectorAt_def attrOf_def)
qed

lemma kept_Cons:
  "kept fs es ex i (e # els) = kept fs es ex i [e] @ kept fs es ex (Suc i) els"
  by (simp add: kept_def)

lemma kept_Nil: "kept fs es ex i [] = []"
  by (simp add: kept_def)

lemma scanLoop_quiet:
  assumes "\<forall>a. \<not> rejects w a" and "count \<le> int (length (resolve w elements))"
  shows "\<exists>s'. scanLoop w fs es ex elements count i ff s
           = (Inr (ff @ kept fs es ex i (take (nat count - i) (drop i (resolve w elements)))), s')"
  using assms
proof (induction "nat count - i" arbitrary: i ff s)
  case 0
  then have "\<not> int i < count" by linarith
  with 0 show ?case
    by (subst scanLoop.simps) (simp add: ret_def kept_Nil)
next
  case (Suc n)
  then have lt: "int i < count" by linarith
  then have il: "i < length (resolve w elements)" using Suc.prems(2) by linarith
  obtain s1 where e: "scanElement w fs es ex elements i ff s
           = (Inr (ff @ kept fs es ex i [resolve w elements ! i]), s1)"
    using scanElement_quiet [OF Suc.prems(1) il] by blast
  have n: "n = nat count - Suc i" using Suc.hyps(2) by linarith
  obtain s2 where l: "scanLoop w fs es ex elements count (Suc i)
            (ff @ kept fs es ex i [resolve w elements ! i]) s1
           = (Inr ((ff @ kept fs es ex i [resolve w elements ! i])
                @ kept fs es ex (Suc i) (take (nat count - Suc i) (drop (Suc i) (resolve w elements)))), s2)"
    using Suc.hyps(1) [OF n Suc.prems] by blast
  have t: "take (nat count - i) (drop i (resolve w elements))
        = resolve w elements ! i # take (nat count - Suc i) (drop (Suc i) (resolve w elements))"
  proof -
    have "nat count - i = Suc (nat count - Suc i)" using lt by linarith
    moreover have "drop i (resolve w elements) = resolve w elements ! i # drop (Suc i) (resolve w elements)"
      using il by (simp add: Cons_nth_drop_Suc)
    ultimately show ?thesis by simp
  qed
  have "scanLoop w fs es ex elements count i ff s
      = scanLoop w fs es ex elements count (Suc i) (ff @ kept fs es ex i [resolve w elements ! i]) s1"
    using lt e by (subst scanLoop.simps) (simp add: bnd_def)
  then show ?case
    using l kept_Cons [of fs es ex i "resolve w elements ! i"
        "take (nat count - Suc i) (drop (Suc i) (resolve w elements))"]
    by (simp add: t)
qed

lemma detectLoop_quiet:
  assumes "\<forall>a. \<not> rejects w a"
  shows "\<exists>s'. detectLoop w fs ex mx kinds ff s = (Inr (detectPure w fs ex mx kinds ff), s')"
proof (induction kinds arbitrary: ff s)
  case Nil
  show ?case by (simp add: ret_def)
next
  case (Cons k rest)
  let ?els = "query w (fs @ '' '' @ k)"
  let ?count = "min (int (length ?els)) mx"
  let ?ff' = "ff @ kept fs k ex 0 (take (nat ?count) ?els)"
  have c: "?count \<le> int (length (resolve w (Css (fs @ '' '' @ k))))" by simp
  obtain s1 where l: "scanLoop w fs k ex (Css (fs @ '' '' @ k)) ?count 0 ff
           (logCall (Count (Css (fs @ '' '' @ k))) (logCall (Locate (fs @ '' '' @ k)) s))
         = (Inr ?ff', s1)"
    using scanLoop_quiet [OF assms c, of fs k ex 0 ff] by auto
  obtain s2 where r: "detectLoop w fs ex mx rest ?ff' s1 = (Inr (detectPure w fs ex mx rest ?ff'), s2)"
    using Cons.IH by blast
  show ?case
    using assms l r
    by (simp add: pageLocator_def locatorCount_def bnd_def ret_def Let_def)
qed

lemma detectFormFields_quiet:
  assumes "\<forall>a. \<not> rejects w a"
  shows "\<exists>s'. detectFormFields w fs ex mx s = (Inr (detectPure w fs ex mx fieldSelectors []), s')"
  unfolding detectFormFields_def by (rule detectLoop_quiet [OF assms])


lemma selector_descriptorAt: "selector (descriptorAt fs es i e) = Sel (selectorAt fs es i e)"
  by (simp add: descriptorAt_def newFieldConfig_def)

lemma take_nat_min: "take (nat (min (int (length xs)) m)) xs = take (nat m) xs"
  by (cases "int (length xs) \<le> m") (simp_all add: min_def)

lemma selectorAt_id:
  "selectorAt fs es i (idInput x) = (if x = [] then fs @ '' '' @ es @ '':nth-child('' @ showNat (i + 1) @ '')'' else ''#'' @ x)"
  "selectorAt fs es i (idSelect x) = (if x = [] then fs @ '' '' @ es @ '':nth-child('' @ showNat (i + 1) @ '')'' else ''#'' @ x)"
  by (simp_all add: selectorAt_def attrOf_def idInput_def idSelect_def orEmpty_def synthSelector_def)

lemmas scanWorld_eval = fieldSelectors_def Let_def kept_def scanWorld_def selector_descriptorAt
  selectorAt_id isExcluded_def inputSelector_def dq_def

lemma fieldSelectors_distinct:
  "inputSelector \<noteq> ''select''" "inputSelector \<noteq> ''textarea''"
  by (simp_all add: inputSelector_def)

lemma emits_ret: "emits P (ret x)"
  by (simp add: emits_def ret_def)

lemma emits_throw: "emits P (throw e)"
  by (simp add: emits_def throw_def)

lemma emits_bnd:
  assumes "emits P m" and "\<And>x. emits P (f x)"
  shows "emits P (bnd m f)"
  unfolding emits_def
proof
  fix s
  obtain t where t: "trace (snd (m s)) = trace s @ t" "list_all P t"
    using assms(1) unfolding emits_def by blast
  show "\<exists>t. trace (snd (bnd m f s)) = trace s @ t \<and> list_all P t"
  proof (cases "m s")
    case (Pair r s1)
    show ?thesis
    proof (cases r)
      case (Inl e)
      with Pair t show ?thesis by (auto simp add: bnd_def)
    next
      case (Inr x)
      obtain u where u: "trace (snd (f x s1)) = trace s1 @ u" "list_all P u"
        using assms(2) unfolding emits_def by blast
      with Pair Inr t have "trace (snd (bnd m f s)) = trace s @ (t @ u)" "list_all P (t @ u)"
        by (simp_all add: bnd_def)
      then show ?thesis by blast
    qed
  qed
qed

lemma emits_onElement: "P a \<Longrightarrow> emits P (onElement w l a)"
  by (auto simp add: emits_def onElement_def logCall_def split: list.splits)

lemma emits_pageLocator: "P (Locate sel) \<Longrightarrow> emits P (pageLocator sel)"
  by (simp add: emits_def pageLocator_def logCall_def)

lemma emits_locatorCount: "P (Count l) \<Longrightarrow> emits P (locatorCount w l)"
  by (simp add: emits_def locatorCount_def logCall_def)

lemma isScanCall_simps:
  "isScanCall (Locate sel)" "isScanCall (Count l)" "isScanCall (GetAttribute l a)"
  "isScanCall (EvalTagName l)" "\<not> isScanCall (Click l)" "\<not> isScanCall (Press l key)"
  by (simp_all add: isScanCall_def)

lemma emits_getAttribute: "emits isScanCall (getAttribute w l a)"
  unfolding getAttribute_def
  by (intro emits_bnd emits_onElement emits_ret) (simp add: isScanCall_def)

lemma emits_determineFieldType: "emits isScanCall (determineFieldType w l ty n i p a lb)"
  unfolding determineFieldType_def getTagName_def
  by (intro emits_bnd emits_onElement emits_ret) (simp_all add: isScanCall_def emits_ret split: option.splits)

lemma emits_scanElement: "emits isScanCall (scanElement w fs es ex els i ff)"
  unfolding scanElement_def Let_def
  by (intro emits_bnd emits_getAttribute) (simp add: emits_ret emits_bnd emits_determineFieldType)

lemma emits_scanLoop: "emits isScanCall (scanLoop w fs es ex els count i ff)"
proof (induction w fs es ex els count i ff rule: scanLoop.induct)
  case (1 w fs es ex els count i ff)
  show ?case
  proof (cases "int i < count")
    case True
    show ?thesis
      by (subst scanLoop.simps) (simp add: True emits_bnd emits_scanElement "1.IH" [OF True])
  next
    case False
    then show ?thesis
      by (subst scanLoop.simps) (simp add: emits_ret)
  qed
qed

lemma emits_detectLoop: "emits isScanCall (detectLoop w fs ex mx kinds ff)"
proof (induction kinds arbitrary: ff)
  case Nil
  show ?case by (simp add: emits_ret)
next
  case (Cons k rest)
  show ?case
    by (simp add: emits_bnd emits_pageLocator emits_locatorCount emits_scanLoop emits_ret Cons.IH
        isScanCall_simps)
qed

lemma emits_detectFormFields: "emits isScanCall (detectFormFields w fs ex mx)"
  unfolding detectFormFields_def by (rule emits_detectLoop)


lemma autoFillForm_phases:
  "autoFillForm w opts s0 =
     bnd (scanAndFill w opts) (\<lambda>(formFields, fieldValues).
       bnd (whenFlag (pick (submitAfterFill opts) False)
              (submitForm w (pick (submitSelector opts) defaultSubmitSelector) formFields)) (\<lambda>_.
       bnd (whenFlag (truthy (autoLocale opts)) (setFaker (faker s0))) (\<lambda>_.
       ret fieldValues))) s0"
  by (simp add: autoFillForm_def scanAndFill_def Let_def bnd_assoc bnd_ret)

lemma whenFlag_True: "whenFlag True m = m"
  by (simp add: whenFlag_def)

lemma pick_Some: "pick (Some v) d = v"
  by (simp add: pick_def)

lemma restore_trace:
  "trace (snd (bnd m (\<lambda>_. bnd (whenFlag b (setFaker f)) (\<lambda>_. ret v)) s)) = trace (snd (m s))"
  by (cases "m s") (simp add: bnd_def whenFlag_def setFaker_def ret_def split: sum.splits)

lemma submitForm_trace:
  assumes "\<not> rejects w (IsVisible (Css sub))"
  shows "trace (snd (submitForm w sub formFields s)) =
     trace s @ [Locate sub, IsVisible (Css sub)] @
       (case query w sub of
          [] \<Rightarrow> pressCalls formFields
        | [b] \<Rightarrow> if visible b then [Click (Css sub)] else pressCalls formFields
        | _ \<Rightarrow> [])"
  using assms
  by (auto simp add: submitForm_def pageLocator_def isVisible_def act_def onElement_def
      locatorOf_def pressCalls_def bnd_def ret_def logCall_def
      split: list.splits target.splits)

lemma localeStep_trace:
  "whenFlag (truthy x) (bnd (getLocaleDefinition (the x)) installNewFaker) s = (r, s')
    \<Longrightarrow> trace s' = trace s"
  by (auto simp add: whenFlag_def getLocaleDefinition_def installNewFaker_def bnd_def ret_def
      throw_def split: if_splits)

lemma scanAndFill_empty_trace:
  assumes "scanAndFill w opts s0 = (Inr ([], fieldValues), s1)"
  shows "\<exists>t. trace s1 = trace s0 @ t \<and> list_all isScanCall t"
proof -
  from assms obtain u sa where
    l: "whenFlag (truthy (autoLocale opts))
          (bnd (getLocaleDefinition (the (autoLocale opts))) installNewFaker) s0 = (Inr u, sa)"
    and r1: "bnd (detectFormFields w (pick (formSelector opts) ''form'')
                (pick (excludeSelectors opts) []) (pick (maxElements opts) 50)) (\<lambda>detected.
             bnd (fillForm w (applyCustomFields (customFields opts) detected)) (\<lambda>fieldValues.
             ret (applyCustomFields (customFields opts) detected, fieldValues))) sa
           = (Inr ([], fieldValues), s1)"
    unfolding scanAndFill_def by (blast dest: bnd_success)
  from r1 obtain detected sb where
    d: "detectFormFields w (pick (formSelector opts) ''form'')
          (pick (excludeSelectors opts) []) (pick (maxElements opts) 50) sa = (Inr detected, sb)"
    and r2: "bnd (fillForm w (applyCustomFields (customFields opts) detected)) (\<lambda>fieldValues.
             ret (applyCustomFields (customFields opts) detected, fieldValues)) sb
           = (Inr ([], fieldValues), s1)"
    by (blast dest: bnd_success)
  from r2 obtain vals sc where
    f: "fillForm w (applyCustomFields (customFields opts) detected) sb = (Inr vals, sc)"
    and r3: "ret (applyCustomFields (customFields opts) detected, vals) sc = (Inr ([], fieldValues), s1)"
    by (blast dest: bnd_success)
  from r3 have e: "applyCustomFields (customFields opts) detected = []" and "s1 = sc"
    by (simp_all add: ret_def)
  with f have "s1 = sb"
    by (simp add: fillForm_def ret_def)
  moreover have "trace sa = trace s0"
    using l by (rule localeStep_trace)
  moreover obtain t where "trace (snd (detectFormFields w (pick (formSelector opts) ''form'')
          (pick (excludeSelectors opts) []) (pick (maxElements opts) 50) sa)) = trace sa @ t"
    and "list_all isScanCall t"
    using emits_detectFormFields unfolding emits_def by blast
  ultimately show ?thesis using d by auto
qed

lemma fillField_text:
  assumes "\<forall>a. \<not> rejects w a" and "query w sel = [e]"
    and "toLowerCase (tagName e) = ''input''" and "toLowerCase (typeProp e) = ''text''"
  shows "\<exists>s'. fillField w (newFieldConfig sel TEXT) s
           = (Inr (VStr (synth w (faker s) (draws s) Words3)), s')"
proof -
  have r: "resolve w (Css sel) = [e]"
    using assms(2) by simp
  have q: "\<And>a. \<not> rejects w a"
    using assms(1) by simp
  show ?thesis
    by (simp add: fillField_def Let_def whenFlag_def truthy_def locatorOf_def pageLocator_def
        generateValue_def synthText_def applyValueToField_def getTagName_def getInputType_def
        act_def onElement_ok [OF r q] assms(3,4) bnd_def ret_def newFieldConfig_def logCall_def)
qed

lemma descriptorAt_idInput:
  "x \<noteq> [] \<Longrightarrow> descriptorAt fs es i (idInput x) = newFieldConfig (''#'' @ x) TEXT"
  unfolding descriptorAt_def selectorAt_id(1)
  by (simp add: priorityClass_def mappingLookup_def idInput_def attrOf_def orEmpty_def
      fieldTypeMappings_def lower_defs)

lemma bnd_successE:
  assumes "bnd m f s = (Inr y, s')"
  obtains x s1 where "m s = (Inr x, s1)" and "f x s1 = (Inr y, s')"
  using bnd_success [OF assms] by auto

lemma keepsFaker_ret: "keepsFaker (ret x)"
  by (simp add: keepsFaker_def ret_def)

lemma keepsFaker_throw: "keepsFaker (throw e)"
  by (simp add: keepsFaker_def throw_def)

lemma keepsFaker_bnd:
  assumes "keepsFaker m" and "\<And>x. keepsFaker (f x)"
  shows "keepsFaker (bnd m f)"
  unfolding keepsFaker_def
proof
  fix s
  show "faker (snd (bnd m f s)) = faker s"
  proof (cases "m s")
    case (Pair r s1)
    have s1: "faker s1 = faker s"
      using assms(1) Pair unfolding keepsFaker_def by (metis snd_conv)
    show ?thesis
    proof (cases r)
      case (Inl e)
      with Pair s1 show ?thesis by (simp add: bnd_def)
    next
      case (Inr x)
      have "faker (snd (f x s1)) = faker s1"
        using assms(2) unfolding keepsFaker_def by blast
      with Pair Inr s1 show ?thesis by (simp add: bnd_def)
    qed
  qed
qed

lemma keepsFaker_onElement: "keepsFaker (onElement w l a)"
  by (auto simp add: keepsFaker_def onElement_def logCall_def split: list.splits)

lemma keepsFaker_act: "keepsFaker (act w l a)"
  unfolding act_def by (intro keepsFaker_bnd keepsFaker_onElement keepsFaker_ret)

lemma keepsFaker_whenFlag: "keepsFaker m \<Longrightarrow> keepsFaker (whenFlag b m)"
  by (simp add: whenFlag_def keepsFaker_ret)

lemma keepsFaker_locatorOf: "keepsFaker (locatorOf t)"
  by (cases t) (simp_all add: keepsFaker_def locatorOf_def pageLocator_def ret_def logCall_def)

lemma keepsFaker_getTagName: "keepsFaker (getTagName w l)"
  unfolding getTagName_def by (intro keepsFaker_bnd keepsFaker_onElement keepsFaker_ret)

lemma keepsFaker_getInputType: "keepsFaker (getInputType w l)"
  unfolding getInputType_def by (intro keepsFaker_bnd keepsFaker_onElement keepsFaker_ret)

lemma keepsFaker_synthText: "keepsFaker (synthText w k)"
  by (simp add: keepsFaker_def synthText_def)

lemma keepsFaker_fakerNumberInt: "keepsFaker (fakerNumberInt w lo hi)"
  by (simp add: keepsFaker_def fakerNumberInt_def split: sum.splits)

lemma keepsFaker_mathRandomDraw: "keepsFaker (mathRandomDraw w)"
  by (simp add: keepsFaker_def mathRandomDraw_def)

lemma keepsFaker_randomIndex: "keepsFaker (randomIndex w n)"
  unfolding randomIndex_def by (intro keepsFaker_bnd keepsFaker_mathRandomDraw keepsFaker_ret)

lemma keepsFaker_getRandomSelectOption: "keepsFaker (getRandomSelectOption w t)"
  unfolding getRandomSelectOption_def Let_def
  by (intro keepsFaker_bnd keepsFaker_locatorOf keepsFaker_onElement)
    (simp add: keepsFaker_ret keepsFaker_bnd keepsFaker_randomIndex)

lemma keepsFaker_generateValue: "keepsFaker (generateValue w c)"
  unfolding generateValue_def
  by (simp add: keepsFaker_ret keepsFaker_throw keepsFaker_bnd keepsFaker_synthText
      keepsFaker_fakerNumberInt keepsFaker_mathRandomDraw keepsFaker_randomIndex
      keepsFaker_getRandomSelectOption split: option.splits sum.splits FieldType.splits)

lemma keepsFaker_applyValueToField: "keepsFaker (applyValueToField w l c v)"
  unfolding applyValueToField_def
  by (intro keepsFaker_bnd keepsFaker_getTagName keepsFaker_getInputType keepsFaker_whenFlag
      keepsFaker_act)
    (simp add: keepsFaker_ret keepsFaker_act split: fillValue.splits)

lemma keepsFakerD: "keepsFaker m \<Longrightarrow> m s = (r, s') \<Longrightarrow> faker s' = faker s"
  unfolding keepsFaker_def by (metis snd_conv)

lemma scanElement_notExcluded:
  assumes "scanElement w fs es ex els i ff s = (Inr ff', s')" and "list_all (notExcluded ex) ff"
  shows "list_all (notExcluded ex) ff'"
  using assms unfolding scanElement_def Let_def
  by (elim bnd_successE) (auto simp add: ret_def notExcluded_def newFieldConfig_def
      elim!: bnd_successE split: if_splits)

lemma scanLoop_notExcluded:
  "scanLoop w fs es ex els count i ff s = (Inr ff', s') \<Longrightarrow> list_all (notExcluded ex) ff
    \<Longrightarrow> list_all (notExcluded ex) ff'"
proof (induction w fs es ex els count i ff arbitrary: s rule: scanLoop.induct)
  case (1 w fs es ex els count i ff)
  show ?case
  proof (cases "int i < count")
    case True
    from "1.prems"(1) True obtain ff1 s1 where
      a: "scanElement w fs es ex els i ff s = (Inr ff1, s1)"
      and b: "scanLoop w fs es ex els count (Suc i) ff1 s1 = (Inr ff', s')"
      by (subst (asm) scanLoop.simps) (auto elim!: bnd_successE)
    from "1.IH" [OF True b scanElement_notExcluded [OF a "1.prems"(2)]] show ?thesis .
  next
    case False
    with "1.prems" show ?thesis
      by (subst (asm) scanLoop.simps) (simp add: ret_def)
  qed
qed

lemma detectLoop_notExcluded:
  "detectLoop w fs ex mx kinds ff s = (Inr ff', s') \<Longrightarrow> list_all (notExcluded ex) ff
    \<Longrightarrow> list_all (notExcluded ex) ff'"
proof (induction kinds arbitrary: ff s)
  case Nil
  then show ?case by (simp add: ret_def)
next
  case (Cons k rest)
  from Cons.prems(1) obtain els sa n sb ff1 sc where
    "scanLoop w fs k ex els (min (int n) mx) 0 ff sb = (Inr ff1, sc)"
    and r: "(if int (length ff1) \<ge> mx then ret ff1 else detectLoop w fs ex mx rest ff1) sc
             = (Inr ff', s')"
    by (auto elim!: bnd_successE)
  then have "list_all (notExcluded ex) ff1"
    using scanLoop_notExcluded Cons.prems(2) by blast
  with r Cons.IH show ?case
    by (auto simp add: ret_def split: if_splits)
qed

lemma scanMappings_find:
  "scanMappings lowered table
     = map_option snd (find (\<lambda>(pattern, t). strIncludes lowered (toLowerCase pattern)) table)"
  by (induction table) auto

lemma detectFormFields_first_call:
  "\<exists>t. trace (snd (detectFormFields w fs ex mx s))
         = trace s @ Locate (fs @ '' '' @ inputSelector) # t"
proof -
  let ?L = "Css (fs @ '' '' @ inputSelector)"
  let ?rest = "bnd (locatorCount w ?L) (\<lambda>n.
     bnd (scanLoop w fs inputSelector ex ?L (min (int n) mx) 0 [])
       (\<lambda>ff. if int (length ff) \<ge> mx then ret ff
              else detectLoop w fs ex mx [''select'', ''textarea''] ff))"
  have "emits isScanCall ?rest"
    by (intro emits_bnd emits_locatorCount emits_scanLoop)
      (simp_all add: emits_ret emits_detectLoop isScanCall_simps del: detectLoop.simps)
  then obtain t where
    "trace (snd (?rest (logCall (Locate (fs @ '' '' @ inputSelector)) s)))
       = trace (logCall (Locate (fs @ '' '' @ inputSelector)) s) @ t"
    unfolding emits_def by blast
  moreover have "detectFormFields w fs ex mx s
      = ?rest (logCall (Locate (fs @ '' '' @ inputSelector)) s)"
    by (simp add: detectFormFields_def fieldSelectors_def bnd_def pageLocator_def)
  ultimately show ?thesis by (simp add: logCall_def)
qed

lemma scan_formB:
  "\<exists>sb. detectFormFields scanWorld ''#formB'' [] 50 s
          = (Inr [newFieldConfig ''#a'' TEXT, newFieldConfig ''#b'' TEXT], sb)"
proof -
  have q: "\<forall>a. \<not> rejects scanWorld a"
    by (simp add: scanWorld_def)
  obtain sb where d: "detectFormFields scanWorld ''#formB'' [] 50 s
      = (Inr (detectPure scanWorld ''#formB'' [] 50 fieldSelectors []), sb)"
    using detectFormFields_quiet [OF q] by blast
  have "detectPure scanWorld ''#formB'' [] 50 fieldSelectors []
      = [descriptorAt ''#formB'' inputSelector 0 (idInput ''a''),
         descriptorAt ''#formB'' inputSelector 1 (idInput ''b'')]"
    by (simp add: fieldSelectors_def Let_def kept_def scanWorld_def selectorAt_id isExcluded_def
        inputSelector_def dq_def)
  then have "detectPure scanWorld ''#formB'' [] 50 fieldSelectors []
      = [newFieldConfig ''#a'' TEXT, newFieldConfig ''#b'' TEXT]"
    by (simp add: descriptorAt_idInput)
  with d show ?thesis by simp
qed

subsection \<open>Classifier\<close>

text \<open>
  Claim C4 fails on the code for a declared type that names a member inherited from
  \<open>Object.prototype\<close>. The type \<open>constructor\<close> is no keyword of the table, so the claim
  sends the element on to the free-text signals and, with none of them set, to TEXT;
  the read \<open>fieldTypeMappings["constructor"]\<close> finds the inherited member, which is
  truthy, and returns it as if it were a category.
\<close>

theorem determineFieldType_inherited_key:
  "map_of fieldTypeMappings (toLowerCase ''constructor'') = None
   \<and> determineFieldType demoWorld (Css ''#a'') ''constructor'' [] [] [] [] [] engine0
       = (Inr (OTHER ''constructor''), logCall (EvalTagName (Css ''#a'')) engine0)"
proof -
  have t: "getTagName demoWorld (Css ''#a'') engine0
     = (Inr ''input'', logCall (EvalTagName (Css ''#a'')) engine0)"
    by (simp add: getTagName_def bnd_def ret_def onElement_def demoWorld_def textInput_def
        lower_defs)
  have l: "toLowerCase ''constructor'' = ''constructor''"
    by (simp add: lower_defs)
  have m: "map_of fieldTypeMappings ''constructor'' = None"
    by (simp add: fieldTypeMappings_def)
  then have k: "mappingLookup ''constructor'' = Some (OTHER ''constructor'')"
    by (simp add: mappingLookup_def objectPrototypeKeys_def)
  show ?thesis
    using t by (simp add: determineFieldType_def bnd_def ret_def l m k)
qed

subsection \<open>Value generator\<close>

text \<open>
  Claim C5, as stated, fails where no integer lies between the bounds: with \<open>min = 5\<close> and
  \<open>max = 3\<close>, and with \<open>min = max = 3/2\<close>, the call to the data library raises instead of
  giving a value.
\<close>

theorem number_without_integer_counterexample:
  "ftype ((newFieldConfig ''#n'' NUMBER)\<lparr>minOpt := Some 5, maxOpt := Some 3\<rparr>) = NUMBER
   \<and> valueGenerator ((newFieldConfig ''#n'' NUMBER)\<lparr>minOpt := Some 5, maxOpt := Some 3\<rparr>) = None
   \<and> fst (generateValue demoWorld
            ((newFieldConfig ''#n'' NUMBER)\<lparr>minOpt := Some 5, maxOpt := Some 3\<rparr>) engine0)
       = Inl FakerRangeError
   \<and> fst (generateValue demoWorld
            ((newFieldConfig ''#n'' NUMBER)\<lparr>minOpt := Some (3 / 2), maxOpt := Some (3 / 2)\<rparr>)
            engine0)
       = Inl FakerRangeError"
proof -
  have "numberInt d 5 3 = Inl FakerRangeError" for d
    by (simp add: numberInt_def)
  moreover have "ceiling (3 / 2 :: rat) = 2"
    by (rule ceiling_unique) simp_all
  moreover have "floor (3 / 2 :: rat) = 1"
    by (rule floor_unique) simp_all
  ultimately have a: "numberInt d 5 3 = Inl FakerRangeError"
    and b: "ceiling (3 / 2 :: rat) = 2" and c: "floor (3 / 2 :: rat) = 1" for d
    by simp_all
  have "numberInt d (3 / 2) (3 / 2) = Inl FakerRangeError" for d
    by (simp add: numberInt_def b c)
  with a show ?thesis
    by (simp add: generateValue_def fakerNumberInt_def newFieldConfig_def)
qed

text \<open>
  Claim C5, amended. For every NUMBER configuration without a \<open>valueGenerator\<close> such that
  some integer lies between \<open>min ?? 1\<close> and \<open>max ?? 100\<close> (the ceiling of the lower bound
  is at most the floor of the upper one), the generated value is an integer between the
  two bounds, both included; with \<open>min = max = 5\<close> it is 5.
\<close>

theorem number_within_bounds:
  assumes "ftype c = NUMBER" and "valueGenerator c = None"
    and "lo = (case minOpt c of None \<Rightarrow> 1 | Some m \<Rightarrow> m)"
    and "hi = (case maxOpt c of None \<Rightarrow> 100 | Some m \<Rightarrow> m)"
    and "ceiling lo \<le> floor hi"
  shows "\<exists>v s'. generateValue w c s = (Inr (VNum v), s') \<and> lo \<le> of_int v \<and> of_int v \<le> hi
           \<and> (minOpt c = Some 5 \<and> maxOpt c = Some 5 \<longrightarrow> v = 5)"
proof -
  define d where "d = fakerDraw w (faker s) (draws s)"
  have "\<exists>v. numberInt d lo hi = Inr v \<and> ceiling lo \<le> v \<and> v \<le> floor hi"
  proof (cases "ceiling lo = floor hi")
    case True
    then show ?thesis by (simp add: numberInt_def)
  next
    case False
    with assms(5) have pos: "0 < floor hi - ceiling lo + 1" by linarith
    have "0 \<le> int d mod (floor hi - ceiling lo + 1)"
      and "int d mod (floor hi - ceiling lo + 1) < floor hi - ceiling lo + 1"
      using pos by (rule pos_mod_sign, rule pos_mod_bound)
    then have "ceiling lo \<le> ceiling lo + int d mod (floor hi - ceiling lo + 1)"
      and "ceiling lo + int d mod (floor hi - ceiling lo + 1) \<le> floor hi"
      by linarith+
    with False assms(5) show ?thesis by (simp add: numberInt_def Let_def)
  qed
  then obtain v where v: "numberInt d lo hi = Inr v" "ceiling lo \<le> v" "v \<le> floor hi"
    by blast
  have lo: "lo \<le> of_int v"
    using v(2) by (simp add: ceiling_le_iff)
  have hi: "of_int v \<le> hi"
    using v(3) by (simp add: le_floor_iff)
  have "generateValue w c s = (Inr (VNum v), s\<lparr>draws := Suc (draws s)\<rparr>)"
    using assms(1-4) v(1) by (simp add: generateValue_def fakerNumberInt_def d_def)
  moreover have "minOpt c = Some 5 \<and> maxOpt c = Some 5 \<longrightarrow> v = 5"
    using assms(3,4) v(2,3) by auto
  ultimately show ?thesis using lo hi by blast
qed

theorem number_within_bounds_witness:
  "ceiling (5 :: rat) \<le> floor (5 :: rat)
   \<and> (\<exists>s'. generateValue demoWorld
              ((newFieldConfig ''#n'' NUMBER)\<lparr>minOpt := Some 5, maxOpt := Some 5\<rparr>) engine0
            = (Inr (VNum 5), s'))"
  using number_within_bounds [of
      "(newFieldConfig ''#n'' NUMBER)\<lparr>minOpt := Some 5, maxOpt := Some 5\<rparr>" 5 5 demoWorld engine0]
  by (auto simp add: newFieldConfig_def)

text \<open>
  Claim C6, as stated, fails for a configuration that carries a \<open>valueGenerator\<close>: the
  generator's value is returned, whatever the type and the options of the element.
\<close>

theorem select_with_generator_counterexample:
  "ftype ((newFieldConfig ''#sel'' SELECT)\<lparr>valueGenerator := Some (Inr (VStr ''custom''))\<rparr>) = SELECT
   \<and> options ((newFieldConfig ''#sel'' SELECT)\<lparr>valueGenerator := Some (Inr (VStr ''custom''))\<rparr>)
       = None
   \<and> resolve demoWorld (Css ''#sel'') = [emptySelect]
   \<and> liveOptions emptySelect = []
   \<and> generateValue demoWorld
        ((newFieldConfig ''#sel'' SELECT)\<lparr>valueGenerator := Some (Inr (VStr ''custom''))\<rparr>) engine0
       = (Inr (VStr ''custom''), engine0)"
  by (simp add: generateValue_def newFieldConfig_def demoWorld_def liveOptions_def emptySelect_def
      ret_def lower_defs)

text \<open>
  Claim C6, amended. For every SELECT configuration without a \<open>valueGenerator\<close> whose
  \<open>options\<close> are absent or empty, and whose element, read without a failure of the
  browser, has no option that is enabled and has a value, generation returns the empty
  string and raises nothing.
\<close>

theorem select_without_options_gives_empty:
  assumes "ftype c = SELECT" and "valueGenerator c = None"
    and "options c = None \<or> options c = Some []"
    and "resolve w (plainLocator (selector c)) = [e]" and "liveOptions e = []"
    and "\<not> rejects w (EvalOptions (plainLocator (selector c)))"
  shows "fst (generateValue w c s) = Inr (VStr [])"
proof -
  obtain s1 where l: "locatorOf (selector c) s = (Inr (plainLocator (selector c)), s1)"
    using locatorOf_plain by blast
  have "fst (getRandomSelectOption w (selector c) s) = Inr []"
    using assms(4-6) l by (simp add: getRandomSelectOption_def onElement_ok bnd_def ret_def)
  then have "fst (bnd (getRandomSelectOption w (selector c)) (\<lambda>v. ret (VStr v)) s) = Inr (VStr [])"
    by (cases "getRandomSelectOption w (selector c) s") (simp add: bnd_def ret_def)
  then show ?thesis using assms(1-3) by (auto simp add: generateValue_def)
qed

theorem select_without_options_gives_empty_witness:
  "resolve demoWorld (plainLocator (selector (newFieldConfig ''#sel'' SELECT))) = [emptySelect]
   \<and> liveOptions emptySelect = []
   \<and> fst (generateValue demoWorld (newFieldConfig ''#sel'' SELECT) engine0) = Inr (VStr [])"
proof -
  have r: "resolve demoWorld (plainLocator (selector (newFieldConfig ''#sel'' SELECT)))
             = [emptySelect]"
    by (simp add: demoWorld_def newFieldConfig_def plainLocator_def)
  have l: "liveOptions emptySelect = []"
    by (simp add: liveOptions_def emptySelect_def lower_defs)
  have q: "\<not> rejects demoWorld
             (EvalOptions (plainLocator (selector (newFieldConfig ''#sel'' SELECT))))"
    by (simp add: demoWorld_def)
  show ?thesis
    using select_without_options_gives_empty [OF _ _ _ r l q, of engine0] r l
    by (simp add: newFieldConfig_def)
qed

subsection \<open>Filler\<close>

text \<open>
  Claim C10. For an element whose tag is \<open>input\<close> and whose type is \<open>file\<close>, and a
  configuration without a \<open>filePath\<close> (absent or empty), \<open>applyValueToField\<close> reads tag and
  type and then calls \<open>fill\<close> with the string form of the value; whatever follows is one
  of the three post-fill actions, so \<open>setInputFiles\<close> is never called.
\<close>

theorem file_input_without_path_is_filled_as_text:
  assumes "resolve w l = [e]" and "toLowerCase (tagName e) = ''input''"
    and "toLowerCase (typeProp e) = ''file''" and "\<not> truthy (filePath c)"
    and "\<not> rejects w (EvalTagName l)" and "\<not> rejects w (EvalInputType l)"
  shows "\<exists>rest. trace (snd (applyValueToField w l c v s))
            = trace s @ [EvalTagName l, EvalInputType l, Fill l (stringOf v)] @ rest
          \<and> set rest \<subseteq> {Click l, Press l ''Enter'', EvalBlur l}"
proof -
  let ?s2 = "logCall (EvalInputType l) (logCall (EvalTagName l) s)"
  let ?post = "\<lambda>_::unit. bnd (whenFlag (clickAfterFill c) (act w l (Click l)))
             (\<lambda>_. bnd (whenFlag (pressEnterAfterFill c) (act w l (Press l ''Enter'')))
             (\<lambda>_. whenFlag (blurAfterFill c) (act w l (EvalBlur l))))"
  have run: "applyValueToField w l c v s = bnd (act w l (Fill l (stringOf v))) ?post ?s2"
    using assms
    by (simp add: applyValueToField_def getTagName_def getInputType_def onElement_ok
        bnd_def ret_def)
  show ?thesis
  proof (cases "rejects w (Fill l (stringOf v))")
    case True
    then have "applyValueToField w l c v s
                 = (Inl InteractionFailed, logCall (Fill l (stringOf v)) ?s2)"
      using assms(1) by (simp add: run act_def onElement_def bnd_def)
    then show ?thesis by (simp add: logCall_def)
  next
    case False
    then have "applyValueToField w l c v s = ?post () (logCall (Fill l (stringOf v)) ?s2)"
      using assms(1) by (simp add: run act_def onElement_def bnd_def ret_def)
    moreover obtain rest where
      "trace (snd (?post () (logCall (Fill l (stringOf v)) ?s2)))
         = trace (logCall (Fill l (stringOf v)) ?s2) @ rest"
      "set rest \<subseteq> {Click l, Press l ''Enter'', EvalBlur l}"
      using postActions_trace by blast
    ultimately show ?thesis by (simp add: logCall_def)
  qed
qed

theorem file_input_without_path_is_filled_as_text_witness:
  "resolve demoWorld (Css ''#file'') = [fileInput]
   \<and> toLowerCase (tagName fileInput) = ''input'' \<and> toLowerCase (typeProp fileInput) = ''file''
   \<and> \<not> truthy (filePath (newFieldConfig ''#file'' FILE))
   \<and> (\<exists>rest. trace (snd (applyValueToField demoWorld (Css ''#file'')
                     (newFieldConfig ''#file'' FILE) (VStr ''lorem'') engine0))
          = trace engine0 @ [EvalTagName (Css ''#file''), EvalInputType (Css ''#file''),
                             Fill (Css ''#file'') ''lorem''] @ rest
        \<and> set rest
            \<subseteq> {Click (Css ''#file''), Press (Css ''#file'') ''Enter'', EvalBlur (Css ''#file'')})"
proof -
  have r: "resolve demoWorld (Css ''#file'') = [fileInput]"
    by (simp add: demoWorld_def)
  have t: "toLowerCase (tagName fileInput) = ''input''"
    by (simp add: fileInput_def lower_defs)
  have y: "toLowerCase (typeProp fileInput) = ''file''"
    by (simp add: fileInput_def lower_defs)
  have p: "\<not> truthy (filePath (newFieldConfig ''#file'' FILE))"
    by (simp add: newFieldConfig_def truthy_def)
  have q1: "\<not> rejects demoWorld (EvalTagName (Css ''#file''))"
    and q2: "\<not> rejects demoWorld (EvalInputType (Css ''#file''))"
    by (simp_all add: demoWorld_def)
  show ?thesis
    using file_input_without_path_is_filled_as_text [OF r t y p q1 q2, of "VStr ''lorem''" engine0]
      r t y p
    by (simp add: stringOf_def)
qed

text \<open>
  Claim C2 fails on the code where the call ends in an exception. On the example page a
  configuration with the locale \<open>en\<close> and a selector that matches nothing installs a new
  generator, fails when the tag of the element is read, and leaves the new generator in
  place: the assignment that restores the old one is only reached on the normal path.
\<close>

theorem fillField_leaves_override_on_throw:
  "fst (fillField demoWorld ((newFieldConfig ''#missing'' TEXT)\<lparr>localeOpt := Some ''en''\<rparr>) engine0)
     = Inl InteractionFailed
   \<and> faker engine0 = \<lparr>instanceId = 0, localeDef = En\<rparr>
   \<and> faker (snd (fillField demoWorld
        ((newFieldConfig ''#missing'' TEXT)\<lparr>localeOpt := Some ''en''\<rparr>) engine0))
       = \<lparr>instanceId = 1, localeDef = En\<rparr>"
  by (simp add: fillField_def Let_def whenFlag_def truthy_def getLocaleDefinition_def
      installNewFaker_def locatorOf_def pageLocator_def generateValue_def synthText_def
      applyValueToField_def getTagName_def onElement_def bnd_def ret_def logCall_def
      newFieldConfig_def demoWorld_def engine0_def)

subsection \<open>Locale errors\<close>

text \<open>
  Claim C7, as stated, fails for a call of \<open>autoFillForm\<close> that asks for the locale through
  \<open>customFields\<close>. On the form \<open>#formB\<close> the override \<open>{"#a": {locale: "fr"}}\<close> is merged
  into the descriptor found for \<open>#a\<close>, and the error is only raised when that field is
  filled: the call ends with \<open>Unsupported locale\<close> after the scan has gone to the browser.
\<close>

theorem custom_field_locale_counterexample:
  "customFields customLocaleOptions = [(''#a'', localeOverride ''fr'')]
   \<and> ovLocale (localeOverride ''fr'') = Some ''fr''
   \<and> trace engine0 = []
   \<and> fst (autoFillForm scanWorld customLocaleOptions engine0) = Inl (UnsupportedLocale ''fr'')
   \<and> trace (snd (autoFillForm scanWorld customLocaleOptions engine0)) \<noteq> []
   \<and> hd (trace (snd (autoFillForm scanWorld customLocaleOptions engine0)))
       = Locate (''#formB '' @ inputSelector)"
proof -
  obtain sb where d: "detectFormFields scanWorld ''#formB'' [] 50 engine0
      = (Inr [newFieldConfig ''#a'' TEXT, newFieldConfig ''#b'' TEXT], sb)"
    using scan_formB by blast
  obtain t where "trace (snd (detectFormFields scanWorld ''#formB'' [] 50 engine0))
      = trace engine0 @ Locate (''#formB'' @ '' '' @ inputSelector) # t"
    using detectFormFields_first_call by blast
  with d have t: "trace sb = Locate (''#formB '' @ inputSelector) # t"
    by (simp add: engine0_def)
  have m: "applyCustomFields [(''#a'', localeOverride ''fr'')]
             [newFieldConfig ''#a'' TEXT, newFieldConfig ''#b'' TEXT]
      = [(newFieldConfig ''#a'' TEXT)\<lparr>localeOpt := Some ''fr''\<rparr>, newFieldConfig ''#b'' TEXT]"
    by (simp add: mergeConfig_def localeOverride_def newFieldConfig_def keep_def pick_def)
  have f: "fillField scanWorld ((newFieldConfig ''#a'' TEXT)\<lparr>localeOpt := Some ''fr''\<rparr>) sb
      = (Inl (UnsupportedLocale ''fr''), sb)"
    by (simp add: fillField_def Let_def whenFlag_def truthy_def getLocaleDefinition_def bnd_def
        throw_def newFieldConfig_def)
  have "autoFillForm scanWorld customLocaleOptions engine0 = (Inl (UnsupportedLocale ''fr''), sb)"
    using d
    by (simp add: autoFillForm_def customLocaleOptions_def Let_def pick_def whenFlag_def
        truthy_def m fillForm_def f bnd_def ret_def del: applyCustomFields.simps)
  with t show ?thesis
    by (simp add: customLocaleOptions_def localeOverride_def engine0_def)
qed

text \<open>
  Claim C7, amended. A call of \<open>fillField\<close> whose configuration carries a locale other
  than \<open>en\<close>, and a call of \<open>autoFillForm\<close> whose own \<open>locale\<close> option is one, ends with
  the error \<open>Unsupported locale\<close> and leaves the engine as it was: the same generator,
  and no call to the browser added to the log. (A locale is carried when the property is
  a non-empty string, which is what the code tests; a locale that reaches a field
  through \<open>customFields\<close> is checked when that field is filled.)
\<close>

theorem unsupported_locale_aborts:
  "(localeOpt c = Some l \<and> l \<noteq> [] \<and> l \<noteq> ''en''
      \<longrightarrow> fillField w c s = (Inl (UnsupportedLocale l), s))
   \<and> (autoLocale opts = Some l' \<and> l' \<noteq> [] \<and> l' \<noteq> ''en''
      \<longrightarrow> autoFillForm w opts s = (Inl (UnsupportedLocale l'), s))"
  by (simp add: fillField_def autoFillForm_def Let_def whenFlag_def truthy_def
      getLocaleDefinition_def bnd_def throw_def)

theorem unsupported_locale_aborts_witness:
  "fillField demoWorld ((newFieldConfig ''#a'' TEXT)\<lparr>localeOpt := Some ''fr''\<rparr>) engine0
     = (Inl (UnsupportedLocale ''fr''), engine0)
   \<and> autoFillForm demoWorld \<lparr>formSelector = None, excludeSelectors = None, customFields = [],
        submitAfterFill = None, submitSelector = None, autoLocale = Some ''de'',
        maxElements = None\<rparr> engine0
     = (Inl (UnsupportedLocale ''de''), engine0)"
  using unsupported_locale_aborts
    [of "(newFieldConfig ''#a'' TEXT)\<lparr>localeOpt := Some ''fr''\<rparr>" "''fr''" demoWorld engine0
        "\<lparr>formSelector = None, excludeSelectors = None, customFields = [],
        submitAfterFill = None, submitSelector = None, autoLocale = Some ''de'',
        maxElements = None\<rparr>" "''de''"]
  by simp

subsection \<open>Scanner\<close>

text \<open>
  Claim C1 fails on the code. Each kind is scanned up to \<open>min(count, maxElements)\<close>
  elements, whatever has been collected from the kinds before, and the total is only
  compared with \<open>maxElements\<close> between two kinds. With \<open>maxElements = 2\<close>, a form of one
  input and two dropdowns gives three descriptors.
\<close>

theorem detectFormFields_exceeds_maxElements:
  "map_sum id (map selector) (fst (detectFormFields scanWorld ''form'' [] 2 engine0))
     = Inr [Sel ''#i1'', Sel ''#s1'', Sel ''#s2'']"
proof -
  have q: "\<forall>a. \<not> rejects scanWorld a"
    by (simp add: scanWorld_def)
  obtain s' where "detectFormFields scanWorld ''form'' [] 2 engine0
      = (Inr (detectPure scanWorld ''form'' [] 2 fieldSelectors []), s')"
    using detectFormFields_quiet [OF q] by blast
  moreover have "map selector (detectPure scanWorld ''form'' [] 2 fieldSelectors [])
      = [Sel ''#i1'', Sel ''#s1'', Sel ''#s2'']"
    by (simp add: scanWorld_eval)
  ultimately show ?thesis by simp
qed

text \<open>
  Claim C3, as stated, fails: an excluded element is among the first \<open>maxElements\<close>
  elements that are looked at. With \<open>maxElements = 2\<close> and the exclude substring
  \<open>skip\<close>, the form \<open>#formA\<close> (inputs \<open>skip\<close>, \<open>a\<close>, \<open>b\<close>) gives one descriptor, while its
  candidates that are not excluded, alone in \<open>#formB\<close>, give two.
\<close>

theorem excluded_element_uses_budget_counterexample:
  "query scanWorld (''#formB '' @ inputSelector)
     = filter (\<lambda>e. \<not> isExcluded [''skip''] (''#'' @ attrOf e ''id''))
         (query scanWorld (''#formA '' @ inputSelector))
   \<and> map_sum id length (fst (detectFormFields scanWorld ''#formA'' [''skip''] 2 engine0)) = Inr 1
   \<and> map_sum id length (fst (detectFormFields scanWorld ''#formB'' [''skip''] 2 engine0)) = Inr 2"
proof -
  have q: "\<forall>a. \<not> rejects scanWorld a"
    by (simp add: scanWorld_def)
  obtain s' where "detectFormFields scanWorld ''#formA'' [''skip''] 2 engine0
      = (Inr (detectPure scanWorld ''#formA'' [''skip''] 2 fieldSelectors []), s')"
    using detectFormFields_quiet [OF q] by blast
  moreover obtain s'' where "detectFormFields scanWorld ''#formB'' [''skip''] 2 engine0
      = (Inr (detectPure scanWorld ''#formB'' [''skip''] 2 fieldSelectors []), s'')"
    using detectFormFields_quiet [OF q] by blast
  moreover have "length (detectPure scanWorld ''#formA'' [''skip''] 2 fieldSelectors []) = 1"
    by (simp add: scanWorld_eval)
  moreover have "length (detectPure scanWorld ''#formB'' [''skip''] 2 fieldSelectors []) = 2"
    by (simp add: scanWorld_eval)
  moreover have "query scanWorld (''#formB '' @ inputSelector)
     = filter (\<lambda>e. \<not> isExcluded [''skip''] (''#'' @ attrOf e ''id''))
         (query scanWorld (''#formA '' @ inputSelector))"
    by (simp add: scanWorld_def isExcluded_def attrOf_def idInput_def orEmpty_def inputSelector_def dq_def)
  ultimately show ?thesis by simp
qed

text \<open>
  Claim C3, amended. An excluded element gives no descriptor, but it takes one of the
  \<open>maxElements\<close> positions looked at: in a form whose candidates are all of one kind,
  scanned without a failure of the browser, the descriptors returned are those of the
  candidates, among the first \<open>maxElements\<close> of that kind, whose selector contains no
  exclude substring.
\<close>

theorem single_kind_scan:
  assumes "\<forall>a. \<not> rejects w a" and "k \<in> set fieldSelectors"
    and "\<forall>k' \<in> set fieldSelectors. k' \<noteq> k \<longrightarrow> query w (fs @ '' '' @ k') = []"
  shows "\<exists>s'. detectFormFields w fs ex mx s =
     (Inr (map (\<lambda>(j, e). descriptorAt fs k j e)
             (filter (\<lambda>(j, e). \<not> isExcluded ex (selectorAt fs k j e))
                (enumerate 0 (take (nat mx) (query w (fs @ '' '' @ k)))))), s')"
proof -
  have "detectPure w fs ex mx fieldSelectors [] = kept fs k ex 0 (take (nat mx) (query w (fs @ '' '' @ k)))"
    using assms(2,3) fieldSelectors_distinct
    by (auto simp add: fieldSelectors_def Let_def take_nat_min kept_Nil)
  then show ?thesis
    using detectFormFields_quiet [OF assms(1), of fs ex mx s] by (simp add: kept_def)
qed

theorem single_kind_scan_witness:
  "(\<forall>a. \<not> rejects scanWorld a) \<and> inputSelector \<in> set fieldSelectors
   \<and> query scanWorld (''#formA '' @ ''select'') = []
   \<and> query scanWorld (''#formA '' @ ''textarea'') = []
   \<and> (\<exists>s'. detectFormFields scanWorld ''#formA'' [''skip''] 2 engine0
          = (Inr [descriptorAt ''#formA'' inputSelector 1 (idInput ''a'')], s'))"
proof -
  have q: "\<forall>a. \<not> rejects scanWorld a"
    by (simp add: scanWorld_def)
  have k: "inputSelector \<in> set fieldSelectors"
    by (simp add: fieldSelectors_def)
  have e1: "query scanWorld (''#formA '' @ ''select'') = []"
    and e2: "query scanWorld (''#formA '' @ ''textarea'') = []"
    by (simp_all add: scanWorld_def inputSelector_def)
  have o: "\<forall>k' \<in> set fieldSelectors. k' \<noteq> inputSelector
         \<longrightarrow> query scanWorld (''#formA'' @ '' '' @ k') = []"
    using e1 e2 by (simp add: fieldSelectors_def)
  have "query scanWorld (''#formA'' @ '' '' @ inputSelector) = [idInput ''skip'', idInput ''a'', idInput ''b'']"
    by (simp add: scanWorld_def inputSelector_def dq_def)
  then show ?thesis
    using single_kind_scan [OF q k o, of "[''skip'']" 2 engine0] q k e1 e2
    by (simp add: selectorAt_id isExcluded_def)
qed

subsection \<open>Orchestrator\<close>




text \<open>
  Claim C9. Take a call of \<open>autoFillForm\<close> with \<open>submitAfterFill\<close> set whose scan and fill
  have gone through, and a browser that answers the visibility check. If the element
  at the submit selector is visible, the call ends with the lookup of that selector, the
  visibility check and a click on it. If it is not visible (or no element matches) and
  there are descriptors, it ends with the lookup, the check and Enter pressed on the
  last descriptor's element. If there is no descriptor, the whole call has made no click
  and pressed no key.
\<close>

theorem submit_after_fill:
  assumes "scanAndFill w opts s0 = (Inr (formFields, fieldValues), s1)"
    and "submitAfterFill opts = Some True"
    and "sub = pick (submitSelector opts) defaultSubmitSelector"
    and "\<not> rejects w (IsVisible (Css sub))"
  shows "(query w sub = [b] \<and> visible b \<longrightarrow>
            trace (snd (autoFillForm w opts s0))
              = trace s1 @ [Locate sub, IsVisible (Css sub), Click (Css sub)])
       \<and> ((query w sub = [] \<or> query w sub = [b] \<and> \<not> visible b) \<and> formFields \<noteq> [] \<longrightarrow>
            trace (snd (autoFillForm w opts s0))
              = trace s1 @ [Locate sub, IsVisible (Css sub)]
                @ (case selector (last formFields) of
                     Sel sel \<Rightarrow> [Locate sel, Press (Css sel) ''Enter'']
                   | Loc l \<Rightarrow> [Press l ''Enter'']))
       \<and> ((query w sub = [] \<or> query w sub = [b] \<and> \<not> visible b) \<and> formFields = [] \<longrightarrow>
            (\<exists>t. trace (snd (autoFillForm w opts s0)) = trace s0 @ t
               \<and> (\<forall>l. Click l \<notin> set t) \<and> (\<forall>l key. Press l key \<notin> set t)))"
proof -
  have run: "trace (snd (autoFillForm w opts s0)) = trace (snd (submitForm w sub formFields s1))"
    using assms(1-3)
    by (simp add: autoFillForm_phases bnd_Inr [where m = "scanAndFill w opts"] pick_Some
        whenFlag_True restore_trace)
  note sf = submitForm_trace [OF assms(4), of formFields s1]
  have 1: "query w sub = [b] \<and> visible b \<longrightarrow>
            trace (snd (autoFillForm w opts s0))
              = trace s1 @ [Locate sub, IsVisible (Css sub), Click (Css sub)]"
    by (simp add: run sf)
  have 2: "(query w sub = [] \<or> query w sub = [b] \<and> \<not> visible b) \<and> formFields \<noteq> [] \<longrightarrow>
            trace (snd (autoFillForm w opts s0))
              = trace s1 @ [Locate sub, IsVisible (Css sub)]
                @ (case selector (last formFields) of
                     Sel sel \<Rightarrow> [Locate sel, Press (Css sel) ''Enter'']
                   | Loc l \<Rightarrow> [Press l ''Enter''])"
    by (auto simp add: run sf pressCalls_def split: list.splits)
  have 3: "(query w sub = [] \<or> query w sub = [b] \<and> \<not> visible b) \<and> formFields = [] \<longrightarrow>
            (\<exists>t. trace (snd (autoFillForm w opts s0)) = trace s0 @ t
               \<and> (\<forall>l. Click l \<notin> set t) \<and> (\<forall>l key. Press l key \<notin> set t))"
  proof
    assume a: "(query w sub = [] \<or> query w sub = [b] \<and> \<not> visible b) \<and> formFields = []"
    then obtain t where t: "trace s1 = trace s0 @ t" "list_all isScanCall t"
      using assms(1) scanAndFill_empty_trace by blast
    have "trace (snd (autoFillForm w opts s0)) = trace s0 @ (t @ [Locate sub, IsVisible (Css sub)])"
      using a t(1) by (auto simp add: run submitForm_trace [OF assms(4)] pressCalls_def)
    moreover have "(\<forall>l. Click l \<notin> set (t @ [Locate sub, IsVisible (Css sub)]))
        \<and> (\<forall>l key. Press l key \<notin> set (t @ [Locate sub, IsVisible (Css sub)]))"
      using t(2) isScanCall_simps(5,6) by (auto simp add: list_all_iff)
    ultimately show "\<exists>t. trace (snd (autoFillForm w opts s0)) = trace s0 @ t
               \<and> (\<forall>l. Click l \<notin> set t) \<and> (\<forall>l key. Press l key \<notin> set t)"
      by blast
  qed
  from 1 2 3 show ?thesis by blast
qed


theorem submit_after_fill_witness:
  "submitAfterFill submitOptions = Some True
   \<and> query scanWorld defaultSubmitSelector = []
   \<and> (\<exists>t. trace (snd (autoFillForm scanWorld submitOptions engine0))
          = t @ [Locate defaultSubmitSelector, IsVisible (Css defaultSubmitSelector),
                 Locate ''#b'', Press (Css ''#b'') ''Enter''])"
proof -
  have q: "\<forall>a. \<not> rejects scanWorld a"
    by (simp add: scanWorld_def)
  have tg: "toLowerCase (tagName (idInput x)) = ''input''"
    "toLowerCase (typeProp (idInput x)) = ''text''" for x
    by (simp_all add: idInput_def lower_defs)
  have qa: "query scanWorld ''#a'' = [idInput ''a'']" and qb: "query scanWorld ''#b'' = [idInput ''b'']"
    by (simp_all add: scanWorld_def inputSelector_def)
  have nosub: "query scanWorld defaultSubmitSelector = []"
    by (simp add: scanWorld_def defaultSubmitSelector_def inputSelector_def)
  obtain sb where d: "detectFormFields scanWorld ''#formB'' [] 50 engine0
      = (Inr (detectPure scanWorld ''#formB'' [] 50 fieldSelectors []), sb)"
    using detectFormFields_quiet [OF q] by blast
  have "detectPure scanWorld ''#formB'' [] 50 fieldSelectors []
      = [descriptorAt ''#formB'' inputSelector 0 (idInput ''a''),
         descriptorAt ''#formB'' inputSelector 1 (idInput ''b'')]"
    by (simp add: fieldSelectors_def Let_def kept_def scanWorld_def selectorAt_id isExcluded_def
        inputSelector_def dq_def)
  then have p: "detectPure scanWorld ''#formB'' [] 50 fieldSelectors []
      = [newFieldConfig ''#a'' TEXT, newFieldConfig ''#b'' TEXT]"
    by (simp add: descriptorAt_idInput)
  obtain v1 s1 where f1: "fillField scanWorld (newFieldConfig ''#a'' TEXT) sb = (Inr v1, s1)"
    using fillField_text [OF q qa tg] by blast
  obtain v2 s2 where f2: "fillField scanWorld (newFieldConfig ''#b'' TEXT) s1 = (Inr v2, s2)"
    using fillField_text [OF q qb tg] by blast
  have sf: "scanAndFill scanWorld submitOptions engine0
      = (Inr ([newFieldConfig ''#a'' TEXT, newFieldConfig ''#b'' TEXT],
              [(''#a'', v1), (''#b'', v2)]), s2)"
    using d p f1 f2
    by (simp add: scanAndFill_def submitOptions_def whenFlag_def truthy_def pick_def fillForm_def
        selectorKey_def newFieldConfig_def bnd_def ret_def)
  have o: "submitAfterFill submitOptions = Some True"
    and u: "defaultSubmitSelector = pick (submitSelector submitOptions) defaultSubmitSelector"
    by (simp_all add: submitOptions_def pick_def)
  have r: "\<not> rejects scanWorld (IsVisible (Css defaultSubmitSelector))"
    using q by simp
  show ?thesis
    using submit_after_fill [OF sf o u r, of "idInput ''a''"] o nosub
    by (simp add: newFieldConfig_def)
qed


subsection \<open>Further properties\<close>

text \<open>
  Away from the inherited keys the classifier does follow the priority order. Once the
  tag has been read, and for a declared type whose lower-case form is no member name of
  \<open>Object.prototype\<close>: a \<open>select\<close> is SELECT and a \<open>textarea\<close> is TEXTAREA; otherwise a
  declared type that is a key of the table gives its category, whatever the other
  signals say; otherwise the first of name, id, placeholder, aria-label and label in
  which a keyword occurs decides, by the first such keyword in the order of the table;
  and when none does the result is TEXT.
\<close>

theorem determineFieldType_priority:
  assumes "getTagName w el s = (Inr tag, s')"
    and "toLowerCase inputType \<notin> set objectPrototypeKeys"
  shows "determineFieldType w el inputType name ident placeholder ariaLabel label s =
     (Inr (if tag = ''select'' then SELECT
           else if tag = ''textarea'' then TEXTAREA
           else (case map_of fieldTypeMappings (toLowerCase inputType) of
                   Some t \<Rightarrow> t
                 | None \<Rightarrow>
                    (case List.map_filter
                            (\<lambda>signal. map_option snd
                               (find (\<lambda>(pattern, t).
                                        strIncludes (toLowerCase signal) (toLowerCase pattern))
                                  fieldTypeMappings))
                            [name, ident, placeholder, ariaLabel, label] of
                       t # _ \<Rightarrow> t
                     | [] \<Rightarrow> TEXT))), s')"
proof -
  have "mappingLookup (toLowerCase inputType) = map_of fieldTypeMappings (toLowerCase inputType)"
    using assms(2) by (simp add: mappingLookup_def split: option.splits)
  then show ?thesis
    using determineFieldType_run [OF assms(1), of inputType name ident placeholder ariaLabel label]
    unfolding priorityClass_def scanMappings_find by simp
qed

text \<open>On the example page: an input without a declared type whose name is \<open>user_phone\<close>
  is PHONE, the first keyword of the table that occurs in the name being \<open>phone\<close>.\<close>

theorem determineFieldType_priority_witness:
  "toLowerCase [] \<notin> set objectPrototypeKeys
   \<and> determineFieldType demoWorld (Css ''#a'') [] ''user_phone'' [] [] [] [] engine0
     = (Inr PHONE, logCall (EvalTagName (Css ''#a'')) engine0)"
proof -
  have t: "getTagName demoWorld (Css ''#a'') engine0
     = (Inr ''input'', logCall (EvalTagName (Css ''#a'')) engine0)"
    by (simp add: getTagName_def bnd_def ret_def onElement_def demoWorld_def textInput_def
        lower_defs)
  have k: "toLowerCase [] \<notin> set objectPrototypeKeys"
    by (simp add: objectPrototypeKeys_def toLowerCase_def)
  have m: "map_of fieldTypeMappings (toLowerCase []) = None"
    by (simp add: fieldTypeMappings_def toLowerCase_def)
  have f: "map_option snd
             (find (\<lambda>(pattern, t). strIncludes (toLowerCase ''user_phone'') (toLowerCase pattern))
                fieldTypeMappings) = Some PHONE"
    by (simp add: fieldTypeMappings_def lower_defs)
  show ?thesis
    using determineFieldType_priority [OF t k, of "''user_phone''" "[]" "[]" "[]" "[]"] k m f
    by (simp add: List.map_filter_simps)
qed

text \<open>
  On the normal path \<open>fillField\<close> does restore the generator: whenever it returns a value,
  with or without a locale in the configuration, the engine's generator is the one that
  was installed before the call.
\<close>

theorem fillField_restores_on_return:
  assumes "fillField w c s = (Inr v, s')"
  shows "faker s' = faker s"
proof -
  from assms obtain u sA l sB v' sC u2 sD u3 sE where
    pre: "whenFlag (truthy (localeOpt c))
             (bnd (getLocaleDefinition (the (localeOpt c))) installNewFaker) s = (Inr u, sA)"
    and loc: "locatorOf (selector c) sA = (Inr l, sB)"
    and gen: "generateValue w c sB = (Inr v', sC)"
    and app: "applyValueToField w l c v' sC = (Inr u2, sD)"
    and res: "whenFlag (truthy (localeOpt c)) (setFaker (faker s)) sD = (Inr u3, sE)"
    and fin: "ret v' sE = (Inr v, s')"
    unfolding fillField_def Let_def by (elim bnd_successE)
  have k: "faker sD = faker sA"
    using keepsFakerD [OF keepsFaker_locatorOf loc] keepsFakerD [OF keepsFaker_generateValue gen]
      keepsFakerD [OF keepsFaker_applyValueToField app]
    by simp
  have e: "s' = sE"
    using fin by (simp add: ret_def)
  show ?thesis
  proof (cases "truthy (localeOpt c)")
    case True
    with res show ?thesis by (auto simp add: e whenFlag_def setFaker_def)
  next
    case False
    with pre res k show ?thesis by (auto simp add: e whenFlag_def ret_def)
  qed
qed

theorem fillField_restores_on_return_witness:
  "\<exists>s'. fillField demoWorld ((newFieldConfig ''#a'' TEXT)\<lparr>localeOpt := Some ''en''\<rparr>) engine0
          = (Inr (VStr ''lorem''), s')
        \<and> faker s' = faker engine0"
proof -
  have r: "resolve demoWorld (Css ''#a'') = [textInput]"
    by (simp add: demoWorld_def)
  have q: "\<And>a. \<not> rejects demoWorld a"
    by (simp add: demoWorld_def)
  have t: "toLowerCase (tagName textInput) = ''input''" "toLowerCase (typeProp textInput) = ''text''"
    by (simp_all add: textInput_def lower_defs)
  have g: "\<And>k s. synthText demoWorld k s = (Inr (VStr ''lorem''), s\<lparr>draws := Suc (draws s)\<rparr>)"
    by (simp add: synthText_def demoWorld_def)
  have "\<exists>s'. fillField demoWorld ((newFieldConfig ''#a'' TEXT)\<lparr>localeOpt := Some ''en''\<rparr>) engine0
          = (Inr (VStr ''lorem''), s')"
    by (simp add: fillField_def Let_def whenFlag_def truthy_def getLocaleDefinition_def
        installNewFaker_def setFaker_def locatorOf_def pageLocator_def
        generateValue_def g applyValueToField_def getTagName_def getInputType_def act_def
        onElement_ok [OF r q] t bnd_def ret_def newFieldConfig_def)
  then obtain s' where s': "fillField demoWorld
      ((newFieldConfig ''#a'' TEXT)\<lparr>localeOpt := Some ''en''\<rparr>) engine0 = (Inr (VStr ''lorem''), s')"
    by blast
  from fillField_restores_on_return [OF s'] s' show ?thesis by blast
qed

text \<open>
  Whatever the browser answers, a scan that returns gives only descriptors addressed
  by a selector in which no exclude substring occurs.
\<close>

theorem excluded_selectors_never_returned:
  assumes "detectFormFields w fs ex mx s = (Inr ff, s')" and "c \<in> set ff"
  shows "\<exists>sel. selector c = Sel sel \<and> \<not> list_ex (\<lambda>e. strIncludes sel e) ex"
proof -
  have "list_all (notExcluded ex) ff"
    using detectLoop_notExcluded [of w fs ex mx fieldSelectors "[]" s ff s'] assms(1)
    by (simp add: detectFormFields_def)
  with assms(2) have "notExcluded ex c"
    by (simp add: list_all_iff)
  then show ?thesis
    by (cases "selector c") (simp_all add: notExcluded_def isExcluded_def)
qed

theorem excluded_selectors_never_returned_witness:
  "(\<exists>s'. detectFormFields scanWorld ''#formA'' [''skip''] 2 engine0
           = (Inr [newFieldConfig ''#a'' TEXT], s'))
   \<and> (\<exists>sel. selector (newFieldConfig ''#a'' TEXT) = Sel sel
          \<and> \<not> list_ex (\<lambda>e. strIncludes sel e) [''skip''])"
proof -
  have q: "\<forall>a. \<not> rejects scanWorld a"
    by (simp add: scanWorld_def)
  obtain s' where d: "detectFormFields scanWorld ''#formA'' [''skip''] 2 engine0
      = (Inr (detectPure scanWorld ''#formA'' [''skip''] 2 fieldSelectors []), s')"
    using detectFormFields_quiet [OF q] by blast
  have "detectPure scanWorld ''#formA'' [''skip''] 2 fieldSelectors []
      = [descriptorAt ''#formA'' inputSelector 1 (idInput ''a'')]"
    by (simp add: fieldSelectors_def Let_def kept_def scanWorld_def selectorAt_id isExcluded_def
        inputSelector_def dq_def)
  then have p: "detectPure scanWorld ''#formA'' [''skip''] 2 fieldSelectors []
      = [newFieldConfig ''#a'' TEXT]"
    by (simp add: descriptorAt_idInput)
  have r: "detectFormFields scanWorld ''#formA'' [''skip''] 2 engine0
      = (Inr [newFieldConfig ''#a'' TEXT], s')"
    using d p by simp
  from excluded_selectors_never_returned [OF r, of "newFieldConfig ''#a'' TEXT"] r
  show ?thesis by auto
qed

text \<open>\<open>fillForm\<close> on the empty list returns the empty map and makes no call at all.\<close>

theorem fillForm_empty: "fillForm w [] s = (Inr [], s)"
  by (simp add: fillForm_def ret_def)


end
